theory Spec2Isabelle
  imports Main
begin

section \<open>Strings\<close>

text \<open>
  Text is a HOL \<open>string\<close>: the bytes of the UTF-8 encoding of the JavaScript string.
  The patterns the program searches for are ASCII, and an ASCII byte never occurs
  inside a multi-byte UTF-8 sequence, so \<open>endsWith\<close>, \<open>includes\<close>
  (here \<open>stringIncludes\<close>), \<open>split\<close> and the regular expression give on the bytes
  the answer they give on the UTF-16 code units.
\<close>

fun startsWith :: "string \<Rightarrow> string \<Rightarrow> bool" where
  "startsWith s [] = True"
| "startsWith [] (p # ps) = False"
| "startsWith (c # cs) (p # ps) = (c = p \<and> startsWith cs ps)"

definition endsWith :: "string \<Rightarrow> string \<Rightarrow> bool" where
  "endsWith s searchString = startsWith (rev s) (rev searchString)"

fun stringIncludes :: "string \<Rightarrow> string \<Rightarrow> bool" where
  "stringIncludes [] searchString = (searchString = [])"
| "stringIncludes (c # cs) searchString =
     (startsWith (c # cs) searchString \<or> stringIncludes cs searchString)"

definition digitChar :: "int \<Rightarrow> char" where
  "digitChar d = ''0123456789'' ! nat (d mod 10)"

function digits :: "int \<Rightarrow> string" where
  \<comment> \<open>The decimal digits of an integer that is not negative.\<close>
  "digits n = (if n < 10 then [digitChar n] else digits (n div 10) @ [digitChar (n mod 10)])"
  by pat_completeness auto
termination
  by (relation "measure nat") auto

declare digits.simps [simp del]

definition toString :: "int \<Rightarrow> string" where
  \<comment> \<open>\<open>Number.prototype.toString\<close> on an integer.\<close>
  "toString i = (if i < 0 then CHR ''-'' # digits (- i) else digits i)"

definition padStart :: "string \<Rightarrow> nat \<Rightarrow> char \<Rightarrow> string" where
  "padStart s targetLength c = replicate (targetLength - length s) c @ s"

definition isDigit :: "char \<Rightarrow> bool" where
  "isDigit c = (c \<in> set ''0123456789'')"

definition digitValue :: "char \<Rightarrow> int" where
  "digitValue c = of_char c - 48"

definition parseInt :: "string \<Rightarrow> int" where
  \<comment> \<open>\<open>parseInt\<close> on a nonempty string of decimal digits, the only strings the
      program passes to it. The value is the exact integer; the rounding of the
      result to a double, which starts at 16 digits, is not modelled.\<close>
  "parseInt ds = foldl (\<lambda>a c. 10 * a + digitValue c) 0 ds"


section \<open>Dates\<close>

text \<open>
  A \<open>Date\<close> is its time value: milliseconds since 1970-01-01T00:00:00Z. The calendar
  fields follow the proleptic Gregorian calendar of ECMAScript. \<open>civil_from_days\<close> splits
  a day number into the 400-year, 100-year, 4-year and 1-year cycles of a year that
  starts on 1 March; the result is (year, month 1..12, day of month).
\<close>

type_synonym Date = int

definition msPerDay :: int where
  "msPerDay = 86400000"

definition civil_from_days :: "int \<Rightarrow> int \<times> int \<times> int" where
  "civil_from_days n =
     (let z = n + 719468;
          era = z div 146097;
          doe = z mod 146097;
          cent = min 3 (doe div 36524);
          doc = doe - 36524 * cent;
          quad = doc div 1461;
          doq = doc mod 1461;
          yoq = min 3 (doq div 365);
          doy = doq - 365 * yoq;
          mp = (5 * doy + 2) div 153;
          d = doy - (153 * mp + 2) div 5 + 1;
          m = (if mp < 10 then mp + 3 else mp - 9)
      in (400 * era + 100 * cent + 4 * quad + yoq + (if m \<le> 2 then 1 else 0), m, d))"

definition days_from_civil :: "int \<Rightarrow> int \<Rightarrow> int \<Rightarrow> int" where
  "days_from_civil y m d =
     (let y' = (if m \<le> 2 then y - 1 else y);
          era = y' div 400;
          yoe = y' mod 400;
          mp = (m + 9) mod 12;
          doy = (153 * mp + 2) div 5 + d - 1;
          doe = 365 * yoe + yoe div 4 - yoe div 100 + doy
      in era * 146097 + doe - 719468)"

definition getUTCFullYear :: "Date \<Rightarrow> int" where
  "getUTCFullYear t = (case civil_from_days (t div msPerDay) of (y, m, d) \<Rightarrow> y)"

definition getUTCMonth :: "Date \<Rightarrow> int" where
  "getUTCMonth t = (case civil_from_days (t div msPerDay) of (y, m, d) \<Rightarrow> m - 1)"

definition getUTCDate :: "Date \<Rightarrow> int" where
  "getUTCDate t = (case civil_from_days (t div msPerDay) of (y, m, d) \<Rightarrow> d)"

text \<open>
  Local time is UTC plus the offset \<open>tz\<close> of the process's time zone, in milliseconds.
  The offset is a parameter of the model and is the same for every instant: a zone
  whose offset changes (daylight saving) is outside the model.
\<close>

definition getFullYear :: "int \<Rightarrow> Date \<Rightarrow> int" where
  "getFullYear tz t = getUTCFullYear (t + tz)"

definition getMonth :: "int \<Rightarrow> Date \<Rightarrow> int" where
  "getMonth tz t = getUTCMonth (t + tz)"

definition getDate :: "int \<Rightarrow> Date \<Rightarrow> int" where
  "getDate tz t = getUTCDate (t + tz)"

definition newDate :: "int \<Rightarrow> int \<Rightarrow> int \<Rightarrow> int \<Rightarrow> Date" where
  \<comment> \<open>\<open>new Date(year, month, day)\<close>: local midnight. A year from 0 to 99 means
      1900 + year; a month outside 0..11 and a day outside the month carry over.\<close>
  "newDate tz year month day =
     (let yr = (if 0 \<le> year \<and> year \<le> 99 then 1900 + year else year);
          ym = yr + month div 12;
          mn = month mod 12
      in (days_from_civil ym (mn + 1) 1 + day - 1) * msPerDay - tz)"


section \<open>The watermark resolver (index.ts)\<close>

text \<open>
  \<open>file.match(/(\d{2})-(\d{2})-(\d{4})-S(\d+)\.json/)\<close>. \<open>matchAt\<close> matches the
  pattern at the start of a string and returns the four groups. The greedy \<open>\d+\<close>
  takes every digit: the literal that follows it starts with a dot, so giving a digit
  back can never help. The pattern has no anchor, so \<open>regexMatch\<close> tries every start
  position from the left and returns the first match.
\<close>

definition matchAt :: "string \<Rightarrow> (string \<times> string \<times> string \<times> string) option" where
  "matchAt s =
     (let day = take 2 s; month = take 2 (drop 3 s); year = take 4 (drop 6 s);
          sq = takeWhile isDigit (drop 12 s)
      in if length day = 2 \<and> list_all isDigit day \<and> take 1 (drop 2 s) = ''-''
            \<and> length month = 2 \<and> list_all isDigit month \<and> take 1 (drop 5 s) = ''-''
            \<and> length year = 4 \<and> list_all isDigit year \<and> take 2 (drop 10 s) = ''-S''
            \<and> sq \<noteq> [] \<and> startsWith (dropWhile isDigit (drop 12 s)) ''.json''
         then Some (day, month, year, sq) else None)"

fun regexMatch :: "string \<Rightarrow> (string \<times> string \<times> string \<times> string) option" where
  "regexMatch [] = matchAt []"
| "regexMatch (c # cs) =
     (case matchAt (c # cs) of Some groups \<Rightarrow> Some groups | None \<Rightarrow> regexMatch cs)"

record processed =
  date :: Date
  sequence :: int

definition parseSequenceFile :: "int \<Rightarrow> string \<Rightarrow> (Date \<times> int) option" where
  \<comment> \<open>Lines 32 to 40: the (date, seq) of a directory entry, \<open>None\<close> where the
      callback returns early.\<close>
  "parseSequenceFile tz file =
     (if \<not> endsWith file ''.json'' then None
      else case regexMatch file of
             None \<Rightarrow> None
           | Some (day, month, year, sq) \<Rightarrow>
               Some (newDate tz (parseInt year) (parseInt month - 1) (parseInt day),
                     parseInt sq))"

definition trackLatest :: "Date option \<times> int \<Rightarrow> Date \<times> int \<Rightarrow> Date option \<times> int" where
  \<comment> \<open>Lines 42 to 50, on the pair (latestDate, latestSequence).\<close>
  "trackLatest st e =
     (case st of (latestDate, latestSequence) \<Rightarrow>
      case e of (d, sq) \<Rightarrow>
        (case latestDate of
           None \<Rightarrow> (Some d, sq)
         | Some latest \<Rightarrow>
             if d > latest then (Some d, sq)
             else if d = latest \<and> sq > latestSequence then (Some latest, sq)
             else (Some latest, latestSequence)))"

definition visitEntry :: "int \<Rightarrow> Date option \<times> int \<Rightarrow> string \<Rightarrow> Date option \<times> int" where
  "visitEntry tz st file =
     (case parseSequenceFile tz file of None \<Rightarrow> st | Some e \<Rightarrow> trackLatest st e)"

definition getLatestProcessedFile :: "int \<Rightarrow> string list \<Rightarrow> processed option" where
  \<comment> \<open>\<open>files\<close> is the result of \<open>fs.readdirSync(OUTPUT_FOLDER)\<close>.\<close>
  "getLatestProcessedFile tz files =
     (case foldl (visitEntry tz) (None, - 1) files of
        (None, latestSequence) \<Rightarrow> None
      | (Some latestDate, latestSequence) \<Rightarrow>
          Some \<lparr>date = latestDate, sequence = latestSequence\<rparr>)"

definition formatDate :: "int \<Rightarrow> Date \<Rightarrow> string" where
  "formatDate tz d =
     padStart (toString (getDate tz d)) 2 CHR ''0'' @ ''-''
       @ padStart (toString (getMonth tz d + 1)) 2 CHR ''0'' @ ''-''
       @ toString (getFullYear tz d)"

section \<open>Trimming\<close>

text \<open>
  \<open>String.prototype.trim\<close> removes the white space and line terminators of ECMAScript
  from both ends: TAB, LF, VT, FF, CR, SP, U+00A0, U+1680, U+2000 to U+200A, U+2028,
  U+2029, U+202F, U+205F, U+3000 and U+FEFF, here in UTF-8.
\<close>

definition whiteSpace :: "string list" where
  "whiteSpace =
     [[CHR 0x09], [CHR 0x0A], [CHR 0x0B], [CHR 0x0C], [CHR 0x0D], [CHR 0x20],
      [CHR 0xC2, CHR 0xA0], [CHR 0xE1, CHR 0x9A, CHR 0x80],
      [CHR 0xE2, CHR 0x80, CHR 0x80], [CHR 0xE2, CHR 0x80, CHR 0x81],
      [CHR 0xE2, CHR 0x80, CHR 0x82], [CHR 0xE2, CHR 0x80, CHR 0x83],
      [CHR 0xE2, CHR 0x80, CHR 0x84], [CHR 0xE2, CHR 0x80, CHR 0x85],
      [CHR 0xE2, CHR 0x80, CHR 0x86], [CHR 0xE2, CHR 0x80, CHR 0x87],
      [CHR 0xE2, CHR 0x80, CHR 0x88], [CHR 0xE2, CHR 0x80, CHR 0x89],
      [CHR 0xE2, CHR 0x80, CHR 0x8A], [CHR 0xE2, CHR 0x80, CHR 0xA8],
      [CHR 0xE2, CHR 0x80, CHR 0xA9], [CHR 0xE2, CHR 0x80, CHR 0xAF],
      [CHR 0xE2, CHR 0x81, CHR 0x9F], [CHR 0xE3, CHR 0x80, CHR 0x80],
      [CHR 0xEF, CHR 0xBB, CHR 0xBF]]"

text \<open>
  The test \<open>s = [] \<or> w = []\<close> in the two functions is never true after a successful
  \<open>find\<close>: it only makes the decrease of the length evident.
\<close>

function trimStart :: "string \<Rightarrow> string" where
  "trimStart s =
     (case find (startsWith s) whiteSpace of
        None \<Rightarrow> s
      | Some w \<Rightarrow> if s = [] \<or> w = [] then s else trimStart (drop (length w) s))"
  by pat_completeness auto
termination
  by (relation "measure length") auto

function trimEnd :: "string \<Rightarrow> string" where
  "trimEnd s =
     (case find (endsWith s) whiteSpace of
        None \<Rightarrow> s
      | Some w \<Rightarrow> if s = [] \<or> w = [] then s else trimEnd (take (length s - length w) s))"
  by pat_completeness auto
termination
  by (relation "measure length") auto

declare trimStart.simps [simp del] trimEnd.simps [simp del]

definition trim :: "string \<Rightarrow> string" where
  "trim s = trimEnd (trimStart s)"


section \<open>The bucket and the output folder\<close>

text \<open>
  What the program asks of the storage client is part of the input: the list of
  objects (or the error of the listing), and for each object its name, the result of
  \<open>getMetadata\<close> and the result of \<open>download\<close>, each a value or the error thrown.
  \<open>download\<close> gives the text \<open>contents.toString()\<close>. \<open>timeCreated\<close> is the time
  value of \<open>new Date(metadata.timeCreated)\<close>.
\<close>

datatype error = StorageError | WriteError | SyntaxError

record metadata =
  timeCreated :: Date
  size' :: int

record File =
  name :: string
  getMetadata :: "error + metadata"
  download :: "error + string"

record FileWithDate =
  file' :: File
  created :: Date
  name :: string

text \<open>
  The output folder is the list of its entries, each a file name with the file's text.
  \<open>fs.writeFileSync\<close> opens the file with flag \<open>w\<close>, which creates it or empties it,
  writes the text and closes the file. \<open>faults\<close> lists the names at which it throws,
  each with the way it does: at the open, so that the folder stays as it is, or after the
  open, with the given number of bytes written to the emptied file.
\<close>

datatype writeFault = FailsAtOpen | FailsAfterOpen nat

type_synonym directory = "(string \<times> string) list"

definition readdirSync :: "directory \<Rightarrow> string list" where
  "readdirSync d = map fst d"

fun putFile :: "directory \<Rightarrow> string \<Rightarrow> string \<Rightarrow> directory" where
  "putFile [] path content = [(path, content)]"
| "putFile ((p, c) # d) path content =
     (if p = path then (p, content) # d else (p, c) # putFile d path content)"

definition writeFileSync ::
  "(string \<times> writeFault) list \<Rightarrow> directory \<Rightarrow> string \<Rightarrow> string
     \<Rightarrow> directory \<times> error option" where
  \<comment> \<open>The folder after the call, and the error if the call throws.\<close>
  "writeFileSync faults d path content =
     (case map_of faults path of
        None \<Rightarrow> (putFile d path content, None)
      | Some FailsAtOpen \<Rightarrow> (d, Some WriteError)
      | Some (FailsAfterOpen n) \<Rightarrow> (putFile d path (take n content), Some WriteError))"

text \<open>
  A run returns the folder it leaves and the trace of what it did:
  \<open>Download f\<close> for each call of \<open>f.download()\<close>, \<open>Saved f path text\<close> for each
  \<open>fs.writeFileSync(path, text)\<close> that returned, with the object the text came from
  (a call that throws leaves no event),
  and for the write stream of the aggregation \<open>Opened path\<close>, \<open>Written path chunk\<close>
  and \<open>Ended path\<close>. The console output is not modelled.
\<close>

datatype event =
    Download File
  | Saved File string string
  | Opened string
  | Written string string
  | Ended string

record outcome =
  dir :: directory
  events :: "event list"


section \<open>The incremental sync pipeline (index.ts)\<close>

fun selectFiles :: "processed option \<Rightarrow> File list \<Rightarrow> error + FileWithDate list" where
  \<comment> \<open>Lines 78 to 92. An error of \<open>getMetadata\<close> leaves the loop and the run.\<close>
  "selectFiles lastProcessed [] = Inr []"
| "selectFiles lastProcessed (f # files) =
     (if \<not> endsWith (File.name f) ''.json'' then selectFiles lastProcessed files
      else case getMetadata f of
             Inl e \<Rightarrow> Inl e
           | Inr md \<Rightarrow>
               if (case lastProcessed of None \<Rightarrow> False
                   | Some lp \<Rightarrow> timeCreated md \<le> date lp)
               then selectFiles lastProcessed files
               else (case selectFiles lastProcessed files of
                       Inl e \<Rightarrow> Inl e
                     | Inr jsonFiles \<Rightarrow>
                         Inr (\<lparr>file' = f, created = timeCreated md, name = File.name f\<rparr>
                              # jsonFiles)))"

fun pushToGroup ::
  "(string \<times> FileWithDate list) list \<Rightarrow> string \<Rightarrow> FileWithDate
     \<Rightarrow> (string \<times> FileWithDate list) list" where
  \<comment> \<open>Lines 102 to 105 on the \<open>Map\<close>, which keeps its keys in insertion order.\<close>
  "pushToGroup [] dateStr fileData = [(dateStr, [fileData])]"
| "pushToGroup ((k, fs) # m) dateStr fileData =
     (if k = dateStr then (k, fs @ [fileData]) # m
      else (k, fs) # pushToGroup m dateStr fileData)"

definition groupByDate :: "int \<Rightarrow> FileWithDate list \<Rightarrow> (string \<times> FileWithDate list) list" where
  "groupByDate tz jsonFiles =
     foldl (\<lambda>m fileData. pushToGroup m (formatDate tz (created fileData)) fileData) [] jsonFiles"

definition sequenceFileName :: "string \<Rightarrow> nat \<Rightarrow> string" where
  "sequenceFileName dateStr i = dateStr @ ''-S'' @ toString (int i) @ ''.json''"

definition saveFile ::
  "(string \<times> writeFault) list \<Rightarrow> string \<Rightarrow> nat \<Rightarrow> FileWithDate \<Rightarrow> outcome \<Rightarrow> outcome" where
  \<comment> \<open>Lines 113 to 133: the body of the inner loop, with its \<open>try\<close> and \<open>catch\<close>.\<close>
  "saveFile faults dateStr i fileData st =
     (let st1 = st\<lparr>events := events st @ [Download (file' fileData)]\<rparr>
      in case download (file' fileData) of
           Inl e \<Rightarrow> st1
         | Inr contents \<Rightarrow>
             (let rawText = trim contents
              in if rawText = [] then st1
                 else (let filename = sequenceFileName dateStr i
                       in case writeFileSync faults (dir st1) filename rawText of
                            (d, Some e) \<Rightarrow> st1\<lparr>dir := d\<rparr>
                          | (d, None) \<Rightarrow>
                              st1\<lparr>dir := d,
                                  events := events st1
                                    @ [Saved (file' fileData) filename rawText]\<rparr>)))"

function processDateFiles ::
  "(string \<times> writeFault) list \<Rightarrow> string \<Rightarrow> FileWithDate list \<Rightarrow> nat \<Rightarrow> outcome \<Rightarrow> outcome" where
  \<comment> \<open>\<open>for (let i = 0; i < dateFiles.length; i++)\<close>, from \<open>i\<close> on.\<close>
  "processDateFiles faults dateStr dateFiles i st =
     (if i < length dateFiles
      then processDateFiles faults dateStr dateFiles (Suc i)
             (saveFile faults dateStr i (dateFiles ! i) st)
      else st)"
  by pat_completeness auto
termination
  by (relation "measure (\<lambda>(faults, dateStr, dateFiles, i, st). length dateFiles - i)") auto

declare processDateFiles.simps [simp del]

definition processGroups ::
  "(string \<times> writeFault) list \<Rightarrow> (string \<times> FileWithDate list) list \<Rightarrow> outcome \<Rightarrow> outcome" where
  "processGroups faults filesByDate st =
     foldl (\<lambda>st (dateStr, dateFiles). processDateFiles faults dateStr dateFiles 0 st)
       st filesByDate"

definition downloadAndSaveJSON ::
  "int \<Rightarrow> (string \<times> writeFault) list \<Rightarrow> error + File list \<Rightarrow> directory \<Rightarrow> error + outcome" where
  \<comment> \<open>\<open>getFiles\<close> is the result of \<open>storage.bucket(BUCKET_NAME).getFiles()\<close>. An
      error leaves the run before anything is downloaded or written.\<close>
  "downloadAndSaveJSON tz faults getFiles d =
     (let lastProcessed = getLatestProcessedFile tz (readdirSync d)
      in case getFiles of
           Inl e \<Rightarrow> Inl e
         | Inr files \<Rightarrow>
             (case selectFiles lastProcessed files of
                Inl e \<Rightarrow> Inl e
              | Inr jsonFiles \<Rightarrow>
                  Inr (processGroups faults
                         (groupByDate tz (sort_key created jsonFiles))
                         \<lparr>dir = d, events = []\<rparr>)))"

section \<open>JSON values, \<open>JSON.parse\<close> and \<open>JSON.stringify\<close>\<close>

text \<open>
  A JSON value as \<open>JSON.parse\<close> returns it. A number \<open>JNumber m e\<close> is the exact
  decimal \<open>m * 10^e\<close>; the rounding to a double is not modelled, so the model is exact
  for literals of at most 15 significant digits within the range of a double. An
  object is the list of its properties in the order in which JavaScript enumerates them.
\<close>

datatype json =
    JNull
  | JBool bool
  | JNumber int int
  | JString string
  | JArray "json list"
  | JObject "(string \<times> json) list"

datatype token =
    TLBrace | TRBrace | TLBracket | TRBracket | TColon | TComma
  | TString string | TNumber int int | TTrue | TFalse | TNull

subsection \<open>Strings\<close>

definition hexValue :: "char \<Rightarrow> int option" where
  "hexValue c =
     (if isDigit c then Some (of_char c - 48)
      else if c \<in> set ''abcdef'' then Some (of_char c - 87)
      else if c \<in> set ''ABCDEF'' then Some (of_char c - 55)
      else None)"

definition hex4 :: "string \<Rightarrow> int option" where
  "hex4 s =
     (case map hexValue (take 4 s) of
        [Some a, Some b, Some c, Some d] \<Rightarrow> Some (((a * 16 + b) * 16 + c) * 16 + d)
      | _ \<Rightarrow> None)"

definition utf8 :: "int \<Rightarrow> string" where
  \<comment> \<open>The bytes of a code point; a surrogate that stands alone takes three bytes
      like any other code point below \<open>0x10000\<close>.\<close>
  "utf8 cp =
     (if cp < 0x80 then [char_of cp]
      else if cp < 0x800 then [char_of (0xC0 + cp div 64), char_of (0x80 + cp mod 64)]
      else if cp < 0x10000 then
        [char_of (0xE0 + cp div 4096), char_of (0x80 + cp div 64 mod 64),
         char_of (0x80 + cp mod 64)]
      else
        [char_of (0xF0 + cp div 262144), char_of (0x80 + cp div 4096 mod 64),
         char_of (0x80 + cp div 64 mod 64), char_of (0x80 + cp mod 64)])"

definition unescape :: "char \<Rightarrow> char option" where
  "unescape e =
     (if e = CHR 0x22 then Some (CHR 0x22)
      else if e = CHR 0x5C then Some (CHR 0x5C)
      else if e = CHR ''/'' then Some (CHR ''/'')
      else if e = CHR ''b'' then Some (CHR 0x08)
      else if e = CHR ''f'' then Some (CHR 0x0C)
      else if e = CHR ''n'' then Some (CHR 0x0A)
      else if e = CHR ''r'' then Some (CHR 0x0D)
      else if e = CHR ''t'' then Some (CHR 0x09)
      else None)"

definition lowSurrogate :: "int \<Rightarrow> string \<Rightarrow> int option" where
  \<comment> \<open>After the escape of a high surrogate: the low surrogate that the next
      escape gives, if it gives one.\<close>
  "lowSurrogate hi s =
     (if 0xD800 \<le> hi \<and> hi < 0xDC00 \<and> take 2 s = [CHR 0x5C, CHR ''u'']
      then (case hex4 (drop 2 s) of
              None \<Rightarrow> None
            | Some lo \<Rightarrow> if 0xDC00 \<le> lo \<and> lo < 0xE000 then Some lo else None)
      else None)"

definition continue :: "string \<Rightarrow> nat \<Rightarrow> (string \<times> nat) option \<Rightarrow> (string \<times> nat) option" where
  "continue bytes n r = (case r of None \<Rightarrow> None | Some (s, k) \<Rightarrow> Some (bytes @ s, n + k))"

fun lexString :: "string \<Rightarrow> (string \<times> nat) option" where
  \<comment> \<open>The text after an opening quote: the string it denotes and the number of
      characters up to and including the closing quote.\<close>
  "lexString [] = None"
| "lexString (c # cs) =
     (if c = CHR 0x22 then Some ([], 1)
      else if c = CHR 0x5C then
        (case cs of
           [] \<Rightarrow> None
         | e # r \<Rightarrow>
             if e = CHR ''u'' then
               (case hex4 r of
                  None \<Rightarrow> None
                | Some hi \<Rightarrow>
                    (case lowSurrogate hi (drop 4 r) of
                       Some lo \<Rightarrow>
                         continue (utf8 (0x10000 + (hi - 0xD800) * 1024 + (lo - 0xDC00))) 12
                           (lexString (drop 10 r))
                     | None \<Rightarrow> continue (utf8 hi) 6 (lexString (drop 4 r))))
             else (case unescape e of
                     None \<Rightarrow> None
                   | Some ch \<Rightarrow> continue [ch] 2 (lexString r)))
      else if (of_char c :: int) < 0x20 then None
      else continue [c] 1 (lexString cs))"

subsection \<open>Numbers\<close>

definition isNumberChar :: "char \<Rightarrow> bool" where
  "isNumberChar c = (c \<in> set ''+-.0123456789eE'')"

definition parseExponent :: "string \<Rightarrow> int option" where
  \<comment> \<open>The text after \<open>e\<close> or \<open>E\<close>, to the end of the literal.\<close>
  "parseExponent s =
     (let neg = (take 1 s = ''-'');
          ds = (if take 1 s = ''-'' \<or> take 1 s = ''+'' then drop 1 s else s)
      in if ds \<noteq> [] \<and> list_all isDigit ds
         then Some (if neg then - parseInt ds else parseInt ds) else None)"

definition parseNumber :: "string \<Rightarrow> (int \<times> int) option" where
  \<comment> \<open>A whole literal: \<open>-? (0 | [1-9][0-9]*) (. [0-9]+)? ([eE] [+-]? [0-9]+)?\<close>.\<close>
  "parseNumber s =
     (let neg = (take 1 s = ''-'');
          s1 = (if neg then drop 1 s else s);
          intDigits = takeWhile isDigit s1;
          s2 = dropWhile isDigit s1;
          hasFrac = (take 1 s2 = ''.'');
          fracDigits = (if hasFrac then takeWhile isDigit (drop 1 s2) else []);
          s3 = (if hasFrac then dropWhile isDigit (drop 1 s2) else s2);
          hasExp = (take 1 s3 = ''e'' \<or> take 1 s3 = ''E'');
          ex = (if hasExp then parseExponent (drop 1 s3) else if s3 = [] then Some 0 else None);
          m = parseInt (intDigits @ fracDigits)
      in if intDigits = [] \<or> (take 1 intDigits = ''0'' \<and> length intDigits > 1)
            \<or> (hasFrac \<and> fracDigits = [])
         then None
         else (case ex of
                 None \<Rightarrow> None
               | Some x \<Rightarrow> Some (if neg then - m else m, x - int (length fracDigits))))"

subsection \<open>Tokens\<close>

definition isJSONWhiteSpace :: "char \<Rightarrow> bool" where
  "isJSONWhiteSpace c = (c = CHR 0x20 \<or> c = CHR 0x09 \<or> c = CHR 0x0A \<or> c = CHR 0x0D)"

definition scanToken :: "char \<Rightarrow> string \<Rightarrow> (token option \<times> nat) option" where
  \<comment> \<open>The token that starts with the character \<open>c\<close>, followed by \<open>cs\<close>, and the
      number of characters of \<open>cs\<close> that belong to it; no token for white space. A
      number takes every character that can occur in a number: after a number only
      white space, a comma, a bracket, a brace or the end may follow.\<close>
  "scanToken c cs =
     (if isJSONWhiteSpace c then Some (None, 0)
      else if c = CHR ''{'' then Some (Some TLBrace, 0)
      else if c = CHR ''}'' then Some (Some TRBrace, 0)
      else if c = CHR ''['' then Some (Some TLBracket, 0)
      else if c = CHR '']'' then Some (Some TRBracket, 0)
      else if c = CHR '':'' then Some (Some TColon, 0)
      else if c = CHR '','' then Some (Some TComma, 0)
      else if c = CHR 0x22 then
        (case lexString cs of
           None \<Rightarrow> None
         | Some (s, n) \<Rightarrow> Some (Some (TString s), n))
      else if c = CHR ''-'' \<or> isDigit c then
        (case parseNumber (c # takeWhile isNumberChar cs) of
           None \<Rightarrow> None
         | Some (m, e) \<Rightarrow> Some (Some (TNumber m e), length (takeWhile isNumberChar cs)))
      else if startsWith (c # cs) ''true'' then Some (Some TTrue, 3)
      else if startsWith (c # cs) ''false'' then Some (Some TFalse, 4)
      else if startsWith (c # cs) ''null'' then Some (Some TNull, 3)
      else None)"

fun lexJSON :: "string \<Rightarrow> token list option" where
  "lexJSON [] = Some []"
| "lexJSON (c # cs) =
     (case scanToken c cs of
        None \<Rightarrow> None
      | Some (t, n) \<Rightarrow>
          (case lexJSON (drop n cs) of
             None \<Rightarrow> None
           | Some ts \<Rightarrow> Some (case t of None \<Rightarrow> ts | Some tok \<Rightarrow> tok # ts)))"

subsection \<open>Values\<close>

definition isArrayIndex :: "string \<Rightarrow> bool" where
  \<comment> \<open>A property name that is the canonical decimal of an integer below \<open>2^32 - 1\<close>.\<close>
  "isArrayIndex k =
     (k \<noteq> [] \<and> list_all isDigit k \<and> (k = ''0'' \<or> take 1 k \<noteq> ''0'')
      \<and> parseInt k < 4294967295)"

definition defineProperty :: "(string \<times> json) list \<Rightarrow> string \<Rightarrow> json \<Rightarrow> (string \<times> json) list" where
  \<comment> \<open>A repeated name keeps its place and takes the new value. A new array index
      goes among the array indices, which come first in ascending order; any other new
      name goes to the end.\<close>
  "defineProperty ms k v =
     (if k \<in> set (map fst ms) then map (\<lambda>p. if fst p = k then (k, v) else p) ms
      else if isArrayIndex k then
        takeWhile (\<lambda>p. isArrayIndex (fst p) \<and> parseInt (fst p) < parseInt k) ms
          @ (k, v) # dropWhile (\<lambda>p. isArrayIndex (fst p) \<and> parseInt (fst p) < parseInt k) ms
      else ms @ [(k, v)])"

datatype mode =
  ExpectValue | ExpectValueOrEnd | ExpectKey | ExpectKeyOrEnd | ExpectColon | ExpectCommaOrEnd

datatype frame =
    ArrayFrame "json list"
  | ObjectFrame "(string \<times> json) list" "string option"

datatype parser = Parsing mode "frame list" | Finished json

definition complete :: "json \<Rightarrow> frame list \<Rightarrow> parser option" where
  \<comment> \<open>A value has ended: it is the result, an element, or the value of the pending name.\<close>
  "complete v stack =
     (case stack of
        [] \<Rightarrow> Some (Finished v)
      | ArrayFrame es # st \<Rightarrow> Some (Parsing ExpectCommaOrEnd (ArrayFrame (es @ [v]) # st))
      | ObjectFrame ms (Some k) # st \<Rightarrow>
          Some (Parsing ExpectCommaOrEnd (ObjectFrame (defineProperty ms k v) None # st))
      | ObjectFrame ms None # st \<Rightarrow> None)"

definition closeArray :: "frame list \<Rightarrow> parser option" where
  "closeArray stack =
     (case stack of ArrayFrame es # st \<Rightarrow> complete (JArray es) st | _ \<Rightarrow> None)"

definition closeObject :: "frame list \<Rightarrow> parser option" where
  "closeObject stack =
     (case stack of ObjectFrame ms None # st \<Rightarrow> complete (JObject ms) st | _ \<Rightarrow> None)"

definition startValue :: "frame list \<Rightarrow> token \<Rightarrow> parser option" where
  "startValue stack t =
     (case t of
        TString s \<Rightarrow> complete (JString s) stack
      | TNumber m e \<Rightarrow> complete (JNumber m e) stack
      | TTrue \<Rightarrow> complete (JBool True) stack
      | TFalse \<Rightarrow> complete (JBool False) stack
      | TNull \<Rightarrow> complete JNull stack
      | TLBracket \<Rightarrow> Some (Parsing ExpectValueOrEnd (ArrayFrame [] # stack))
      | TLBrace \<Rightarrow> Some (Parsing ExpectKeyOrEnd (ObjectFrame [] None # stack))
      | _ \<Rightarrow> None)"

definition startKey :: "frame list \<Rightarrow> token \<Rightarrow> parser option" where
  "startKey stack t =
     (case (t, stack) of
        (TString k, ObjectFrame ms None # st) \<Rightarrow>
          Some (Parsing ExpectColon (ObjectFrame ms (Some k) # st))
      | _ \<Rightarrow> None)"

definition step :: "parser \<Rightarrow> token \<Rightarrow> parser option" where
  "step p t =
     (case p of
        Finished v \<Rightarrow> None
      | Parsing ExpectValue stack \<Rightarrow> startValue stack t
      | Parsing ExpectValueOrEnd stack \<Rightarrow>
          if t = TRBracket then closeArray stack else startValue stack t
      | Parsing ExpectKey stack \<Rightarrow> startKey stack t
      | Parsing ExpectKeyOrEnd stack \<Rightarrow>
          if t = TRBrace then closeObject stack else startKey stack t
      | Parsing ExpectColon stack \<Rightarrow>
          if t = TColon then Some (Parsing ExpectValue stack) else None
      | Parsing ExpectCommaOrEnd stack \<Rightarrow>
          if t = TComma then
            (case stack of
               ArrayFrame es # st \<Rightarrow> Some (Parsing ExpectValue stack)
             | ObjectFrame ms None # st \<Rightarrow> Some (Parsing ExpectKey stack)
             | _ \<Rightarrow> None)
          else if t = TRBracket then closeArray stack
          else if t = TRBrace then closeObject stack
          else None)"

fun parseTokens :: "parser \<Rightarrow> token list \<Rightarrow> json option" where
  "parseTokens p [] = (case p of Finished v \<Rightarrow> Some v | Parsing m stack \<Rightarrow> None)"
| "parseTokens p (t # ts) =
     (case step p t of None \<Rightarrow> None | Some p' \<Rightarrow> parseTokens p' ts)"

definition JSON_parse :: "string \<Rightarrow> error + json" where
  \<comment> \<open>\<open>JSON.parse(text)\<close>: the value, or the \<open>SyntaxError\<close> it throws.\<close>
  "JSON_parse text =
     (case lexJSON text of
        None \<Rightarrow> Inl SyntaxError
      | Some ts \<Rightarrow>
          (case parseTokens (Parsing ExpectValue []) ts of
             None \<Rightarrow> Inl SyntaxError
           | Some v \<Rightarrow> Inr v))"

subsection \<open>\<open>JSON.stringify\<close>\<close>

definition hexChar :: "int \<Rightarrow> char" where
  "hexChar d = ''0123456789abcdef'' ! nat (d mod 16)"

definition unicodeEscape :: "int \<Rightarrow> string" where
  "unicodeEscape u =
     [CHR 0x5C, CHR ''u'', hexChar (u div 4096), hexChar (u div 256), hexChar (u div 16),
      hexChar u]"

definition escapeChar :: "char \<Rightarrow> string \<Rightarrow> string \<times> nat" where
  \<comment> \<open>The escapes of \<open>QuoteJSONString\<close> for the character \<open>c\<close>, followed by
      \<open>cs\<close>, and the number of characters of \<open>cs\<close> written with it. The three bytes
      \<open>ED A0..BF xx\<close> are a surrogate that stands alone, which is written as an escape.\<close>
  "escapeChar c cs =
     (if c = CHR 0x08 then ([CHR 0x5C, CHR ''b''], 0)
      else if c = CHR 0x09 then ([CHR 0x5C, CHR ''t''], 0)
      else if c = CHR 0x0A then ([CHR 0x5C, CHR ''n''], 0)
      else if c = CHR 0x0C then ([CHR 0x5C, CHR ''f''], 0)
      else if c = CHR 0x0D then ([CHR 0x5C, CHR ''r''], 0)
      else if c = CHR 0x22 then ([CHR 0x5C, CHR 0x22], 0)
      else if c = CHR 0x5C then ([CHR 0x5C, CHR 0x5C], 0)
      else if (of_char c :: int) < 0x20 then (unicodeEscape (of_char c), 0)
      else if c = CHR 0xED \<and> length cs \<ge> 2 \<and> (0xA0 :: int) \<le> of_char (cs ! 0) then
        (unicodeEscape (0xD000 + (of_char (cs ! 0) mod 64) * 64 + of_char (cs ! 1) mod 64), 2)
      else ([c], 0))"

fun quoteChars :: "string \<Rightarrow> string" where
  "quoteChars [] = []"
| "quoteChars (c # cs) =
     (case escapeChar c cs of (out, n) \<Rightarrow> out @ quoteChars (drop n cs))"

definition quoteJSONString :: "string \<Rightarrow> string" where
  "quoteJSONString s = [CHR 0x22] @ quoteChars s @ [CHR 0x22]"

definition stripTrailingZeros :: "string \<Rightarrow> string" where
  "stripTrailingZeros ds = rev (dropWhile (\<lambda>c. c = CHR ''0'') (rev ds))"

definition numberToString :: "int \<Rightarrow> int \<Rightarrow> string" where
  \<comment> \<open>\<open>Number::toString\<close> of \<open>m * 10^e\<close>: with \<open>s\<close> the \<open>k\<close> significant digits
      and \<open>n\<close> the position of the decimal point after the first of them.\<close>
  "numberToString m e =
     (if m = 0 then ''0''
      else
        (let ds = digits \<bar>m\<bar>;
             s = stripTrailingZeros ds;
             k = int (length s);
             n = e + int (length ds);
             sign = (if m < 0 then ''-'' else '''');
             ex = (if n - 1 < 0 then ''e-'' else ''e+'') @ toString \<bar>n - 1\<bar>
         in sign @
            (if k \<le> n \<and> n \<le> 21 then s @ replicate (nat (n - k)) CHR ''0''
             else if 0 < n \<and> n \<le> 21 then take (nat n) s @ ''.'' @ drop (nat n) s
             else if - 6 < n \<and> n \<le> 0 then ''0.'' @ replicate (nat (- n)) CHR ''0'' @ s
             else if k = 1 then s @ ex
             else take 1 s @ ''.'' @ drop 1 s @ ex)))"

fun intercalate :: "string \<Rightarrow> string list \<Rightarrow> string" where
  "intercalate sep [] = []"
| "intercalate sep [x] = x"
| "intercalate sep (x # y # ys) = x @ sep @ intercalate sep (y # ys)"

primrec JSON_stringify :: "json \<Rightarrow> string" where
  "JSON_stringify JNull = ''null''"
| "JSON_stringify (JBool b) = (if b then ''true'' else ''false'')"
| "JSON_stringify (JNumber m e) = numberToString m e"
| "JSON_stringify (JString s) = quoteJSONString s"
| "JSON_stringify (JArray vs) = ''['' @ intercalate '','' (map JSON_stringify vs) @ '']''"
| "JSON_stringify (JObject ms) =
     ''{'' @ intercalate '',''
              (map (\<lambda>p. quoteJSONString (fst p) @ '':'' @ snd p)
                 (map (map_prod id JSON_stringify) ms)) @ ''}''"

section \<open>The content normalizer and the aggregation pipeline (part_000)\<close>

definition formatDatePath :: "Date \<Rightarrow> string" where
  "formatDatePath d =
     toString (getUTCFullYear d) @ ''/''
       @ padStart (toString (getUTCMonth d + 1)) 2 CHR ''0'' @ ''/''
       @ padStart (toString (getUTCDate d)) 2 CHR ''0''"

definition isFromToday :: "Date \<Rightarrow> string \<Rightarrow> bool" where
  \<comment> \<open>\<open>today\<close> is the \<open>new Date()\<close> that the call makes.\<close>
  "isFromToday today filePath = stringIncludes filePath (formatDatePath today)"

fun splitLines :: "string \<Rightarrow> string list" where
  \<comment> \<open>\<open>split("\n")\<close>\<close>
  "splitLines [] = [[]]"
| "splitLines (c # cs) =
     (if c = CHR 0x0A then [] # splitLines cs
      else (case splitLines cs of [] \<Rightarrow> [[c]] | l # ls \<Rightarrow> (c # l) # ls))"

fun parseLines :: "string list \<Rightarrow> error + json list" where
  \<comment> \<open>Lines 55 to 68: the loop over the lines and the \<open>return\<close> after it.\<close>
  "parseLines [] = Inr []"
| "parseLines (line # lines) =
     (let trimmedLine = trim line
      in if trimmedLine = [] then parseLines lines
         else (case JSON_parse trimmedLine of
                 Inl err \<Rightarrow> parseLines lines
               | Inr v \<Rightarrow>
                   (case parseLines lines of
                      Inl e \<Rightarrow> Inl e
                    | Inr results \<Rightarrow> Inr (v # results))))"

definition parseJsonContent :: "string \<Rightarrow> error + json list" where
  \<comment> \<open>The result is the array returned, or the error thrown.\<close>
  "parseJsonContent content =
     (let trimmedContent = trim content
      in if trimmedContent = [] then Inr []
         else (case JSON_parse trimmedContent of
                 Inr parsed \<Rightarrow> Inr (case parsed of JArray vs \<Rightarrow> vs | _ \<Rightarrow> [parsed])
               | Inl e \<Rightarrow> parseLines (splitLines trimmedContent)))"

definition TODAY_FILE :: string where
  "TODAY_FILE = ''today.json''"

text \<open>
  \<open>fs.createWriteStream(TODAY_FILE, { flags: "w" })\<close> creates the file or empties it;
  each \<open>write\<close> adds its chunk at the end. The stream is taken to open and write
  without error.
\<close>

definition createWriteStream :: "string \<Rightarrow> outcome \<Rightarrow> outcome" where
  "createWriteStream path st =
     st\<lparr>dir := putFile (dir st) path [], events := events st @ [Opened path]\<rparr>"

definition streamWrite :: "string \<Rightarrow> string \<Rightarrow> outcome \<Rightarrow> outcome" where
  "streamWrite path chunk st =
     st\<lparr>dir := putFile (dir st) path
                 ((case map_of (dir st) path of None \<Rightarrow> [] | Some text \<Rightarrow> text) @ chunk),
        events := events st @ [Written path chunk]\<rparr>"

definition streamEnd :: "string \<Rightarrow> outcome \<Rightarrow> outcome" where
  "streamEnd path st = st\<lparr>events := events st @ [Ended path]\<rparr>"

text \<open>
  \<open>clock k\<close> is the time that the \<open>k\<close>-th \<open>new Date()\<close> of the run returns, counted
  from 0. The first is the one of \<open>processLogs\<close> itself, which only goes to the console;
  every call of \<open>isFromToday\<close> makes one more.
\<close>

fun selectToday :: "(nat \<Rightarrow> Date) \<Rightarrow> nat \<Rightarrow> File list \<Rightarrow> error + FileWithDate list" where
  \<comment> \<open>Lines 109 to 122, the \<open>size\<close> of the entry left out. An error of
      \<open>getMetadata\<close> leaves the loop and the run.\<close>
  "selectToday clock k [] = Inr []"
| "selectToday clock k (f # files) =
     (if \<not> endsWith (File.name f) ''.json'' then selectToday clock k files
      else if \<not> isFromToday (clock k) (File.name f) then selectToday clock (Suc k) files
      else (case getMetadata f of
              Inl e \<Rightarrow> Inl e
            | Inr md \<Rightarrow>
                (case selectToday clock (Suc k) files of
                   Inl e \<Rightarrow> Inl e
                 | Inr jsonFiles \<Rightarrow>
                     Inr (\<lparr>file' = f, created = timeCreated md, name = File.name f\<rparr>
                          # jsonFiles))))"

definition writeEntries :: "json list \<Rightarrow> outcome \<Rightarrow> outcome" where
  \<comment> \<open>Lines 150 to 152.\<close>
  "writeEntries jsonData st =
     foldl (\<lambda>st jsonObject. streamWrite TODAY_FILE (JSON_stringify jsonObject @ [CHR 0x0A]) st)
       st jsonData"

definition processFile :: "FileWithDate \<Rightarrow> outcome \<Rightarrow> outcome" where
  \<comment> \<open>Lines 137 to 159: the body of the loop, with its \<open>try\<close> and \<open>catch\<close>.\<close>
  "processFile fileData st =
     (let st1 = st\<lparr>events := events st @ [Download (file' fileData)]\<rparr>
      in case download (file' fileData) of
           Inl e \<Rightarrow> st1
         | Inr rawText \<Rightarrow>
             if trim rawText = [] then st1
             else (case parseJsonContent rawText of
                     Inl e \<Rightarrow> st1
                   | Inr jsonData \<Rightarrow>
                       if length jsonData > 0 then writeEntries jsonData st1 else st1))"

definition processLogs :: "(nat \<Rightarrow> Date) \<Rightarrow> error + File list \<Rightarrow> directory \<Rightarrow> error + outcome" where
  \<comment> \<open>\<open>getFiles\<close> is the result of \<open>storage.bucket(BUCKET_NAME).getFiles(...)\<close>.\<close>
  "processLogs clock getFiles d =
     (case getFiles of
        Inl e \<Rightarrow> Inl e
      | Inr files \<Rightarrow>
          (case selectToday clock 1 files of
             Inl e \<Rightarrow> Inl e
           | Inr jsonFiles \<Rightarrow>
               if length jsonFiles = 0 then Inr \<lparr>dir = d, events = []\<rparr>
               else Inr (streamEnd TODAY_FILE
                           (foldl (\<lambda>st fileData. processFile fileData st)
                              (createWriteStream TODAY_FILE \<lparr>dir = d, events = []\<rparr>)
                              (sort_key created jsonFiles)))))"

definition steadyClock :: "Date \<Rightarrow> nat \<Rightarrow> Date" where
  \<comment> \<open>A clock for examples: it starts at \<open>t\<close> and moves one millisecond with
      every reading.\<close>
  "steadyClock t k = t + int k"

section \<open>Notions for stating the properties\<close>

definition included :: "processed option \<Rightarrow> File \<Rightarrow> bool" where
  \<comment> \<open>Step (3) of the incremental sync: a JSON-extension name and a creation time
      strictly later than the watermark's date, or no watermark.\<close>
  "included lastProcessed f =
     (endsWith (File.name f) ''.json''
      \<and> (case getMetadata f of
            Inl e \<Rightarrow> False
          | Inr md \<Rightarrow>
              (case lastProcessed of None \<Rightarrow> True | Some w \<Rightarrow> date w < timeCreated md)))"

definition savedAs :: "(string \<times> writeFault) list \<Rightarrow> string \<Rightarrow> nat \<Rightarrow> FileWithDate \<Rightarrow> (string \<times> string) option" where
  \<comment> \<open>The file name and text written for the object at position \<open>i\<close> of the group of
      \<open>dateStr\<close>; nothing if the download fails, the trimmed text is empty or the write
      throws.\<close>
  "savedAs faults dateStr i fd =
     (case download (file' fd) of
        Inl e \<Rightarrow> None
      | Inr contents \<Rightarrow>
          if trim contents = [] \<or> sequenceFileName dateStr i \<in> set (map fst faults) then None
          else Some (sequenceFileName dateStr i, trim contents))"

definition objectEvents :: "(string \<times> writeFault) list \<Rightarrow> string \<Rightarrow> nat \<Rightarrow> FileWithDate \<Rightarrow> event list" where
  "objectEvents faults dateStr i fd =
     Download (file' fd)
       # (case savedAs faults dateStr i fd of
            None \<Rightarrow> []
          | Some (path, text) \<Rightarrow> [Saved (file' fd) path text])"

definition groupEvents :: "(string \<times> writeFault) list \<Rightarrow> string \<times> FileWithDate list \<Rightarrow> event list" where
  "groupEvents faults g =
     concat (map (\<lambda>i. objectEvents faults (fst g) i (snd g ! i)) [0..<length (snd g)])"

section \<open>Objects for the examples\<close>

text \<open>
  Four objects of a bucket: \<open>objA\<close> created on 2024-03-05 at 10:00 UTC, \<open>objE\<close> (only
  white space) on 2024-03-07 at 08:00, \<open>objB\<close> on 2024-03-07 at 09:00, and \<open>objN\<close>,
  whose name has no JSON extension.
\<close>

definition objA :: File where
  "objA = \<lparr>File.name = ''logs/a.json'',
           getMetadata = Inr \<lparr>timeCreated = 1709632800000, size' = 7\<rparr>,
           download = Inr ''{\"a\":1}''\<rparr>"

definition objE :: File where
  "objE = \<lparr>File.name = ''logs/e.json'',
           getMetadata = Inr \<lparr>timeCreated = 1709798400000, size' = 2\<rparr>,
           download = Inr ''  ''\<rparr>"

definition objB :: File where
  "objB = \<lparr>File.name = ''logs/b.json'',
           getMetadata = Inr \<lparr>timeCreated = 1709802000000, size' = 7\<rparr>,
           download = Inr ''{\"b\":2}''\<rparr>"

definition objN :: File where
  "objN = \<lparr>File.name = ''logs/notes.txt'',
           getMetadata = Inr \<lparr>timeCreated = 1709802000000, size' = 5\<rparr>,
           download = Inr ''notes''\<rparr>"

text \<open>
  Two objects under the path of 2024-03-07, created one millisecond apart: \<open>objX\<close>
  holds a single JSON document, \<open>objY\<close> two lines of JSON.
\<close>

definition objX :: File where
  "objX = \<lparr>File.name = ''logs/2024/03/07/x.json'',
           getMetadata = Inr \<lparr>timeCreated = 1709805600000, size' = 7\<rparr>,
           download = Inr ''{\"x\":1}''\<rparr>"

definition objY :: File where
  "objY = \<lparr>File.name = ''logs/2024/03/07/y.json'',
           getMetadata = Inr \<lparr>timeCreated = 1709805600001, size' = 15\<rparr>,
           download = Inr (''{\"y\":2}'' @ [CHR 0x0A] @ ''{\"y\":3}'')\<rparr>"

text \<open>
  \<open>objC\<close> was created on 2024-03-06 at 10:00 UTC. \<open>objZ\<close> lies under the path of
  2024-03-08.
\<close>

definition objC :: File where
  "objC = \<lparr>File.name = ''logs/c.json'',
           getMetadata = Inr \<lparr>timeCreated = 1709719200000, size' = 7\<rparr>,
           download = Inr ''{\"c\":3}''\<rparr>"


section \<open>Facts about the string functions and the pattern match\<close>

lemma startsWith_append [simp]: "startsWith (p @ r) p"
  by (induction p) simp_all

lemma startsWith_iff: "startsWith s p \<longleftrightarrow> (\<exists>r. s = p @ r)"
  by (induction s p rule: startsWith.induct) auto

lemma endsWith_iff: "endsWith s p \<longleftrightarrow> (\<exists>r. s = r @ p)"
proof -
  have "endsWith s p \<longleftrightarrow> (\<exists>r. rev s = rev p @ r)"
    by (simp add: endsWith_def startsWith_iff)
  also have "\<dots> \<longleftrightarrow> (\<exists>r. s = r @ p)"
  proof
    assume "\<exists>r. rev s = rev p @ r"
    then obtain r where "rev s = rev p @ r" ..
    then have "s = rev r @ p" by (metis rev_append rev_rev_ident)
    then show "\<exists>r. s = r @ p" ..
  next
    assume "\<exists>r. s = r @ p"
    then obtain r where "s = r @ p" ..
    then have "rev s = rev p @ rev r" by simp
    then show "\<exists>r. rev s = rev p @ r" ..
  qed
  finally show ?thesis .
qed

lemma stringIncludes_iff: "stringIncludes s p \<longleftrightarrow> (\<exists>pre post. s = pre @ p @ post)"
proof (induction s)
  case Nil
  then show ?case by auto
next
  case (Cons c cs)
  show ?case
  proof
    assume "stringIncludes (c # cs) p"
    then consider "startsWith (c # cs) p" | "stringIncludes cs p" by auto
    then show "\<exists>pre post. c # cs = pre @ p @ post"
    proof cases
      case 1
      then obtain r where "c # cs = p @ r" by (auto simp: startsWith_iff)
      then have "c # cs = [] @ p @ r" by simp
      then show ?thesis by blast
    next
      case 2
      with Cons.IH obtain pre post where "cs = pre @ p @ post" by blast
      then have "c # cs = (c # pre) @ p @ post" by simp
      then show ?thesis by blast
    qed
  next
    assume "\<exists>pre post. c # cs = pre @ p @ post"
    then obtain pre post where e: "c # cs = pre @ p @ post" by blast
    show "stringIncludes (c # cs) p"
    proof (cases pre)
      case Nil
      with e have "startsWith (c # cs) p" by (simp add: startsWith_iff)
      then show ?thesis by simp
    next
      case (Cons a pre')
      with e have "cs = pre' @ p @ post" by simp
      with Cons.IH have "stringIncludes cs p" by blast
      then show ?thesis by simp
    qed
  qed
qed

lemma regexMatch_unfold:
  "regexMatch s = (case matchAt s of Some g \<Rightarrow> Some g | None \<Rightarrow> (case s of [] \<Rightarrow> None | c # cs \<Rightarrow> regexMatch cs))"
  by (cases s) (auto split: option.splits)

lemma regexMatch_leftmost:
  "matchAt (drop k s) = Some g \<Longrightarrow> \<forall>j<k. matchAt (drop j s) = None \<Longrightarrow> k \<le> length s
     \<Longrightarrow> regexMatch s = Some g"
proof (induction s arbitrary: k)
  case Nil
  then show ?case by simp
next
  case (Cons c cs)
  show ?case
  proof (cases k)
    case 0
    with Cons.prems show ?thesis by simp
  next
    case (Suc k')
    with Cons.prems have m: "matchAt (drop k' cs) = Some g" and l: "k' \<le> length cs" by simp_all
    from Cons.prems(2) Suc have "matchAt (drop 0 (c # cs)) = None" by blast
    then have n0: "matchAt (c # cs) = None" by simp
    have "\<forall>j<k'. matchAt (drop j cs) = None"
    proof (intro allI impI)
      fix j assume "j < k'"
      then have "Suc j < k" using Suc by simp
      with Cons.prems(2) have "matchAt (drop (Suc j) (c # cs)) = None" by blast
      then show "matchAt (drop j cs) = None" by simp
    qed
    with Cons.IH[OF m _ l] have "regexMatch cs = Some g" by blast
    with n0 show ?thesis by simp
  qed
qed

lemma regexMatch_found:
  "matchAt (drop k s) = Some g \<Longrightarrow> k \<le> length s \<Longrightarrow> regexMatch s \<noteq> None"
proof (induction s arbitrary: k)
  case Nil
  then show ?case by auto
next
  case (Cons c cs)
  show ?case
  proof (cases "matchAt (c # cs)")
    case (Some a)
    then show ?thesis by simp
  next
    case None
    with Cons.prems obtain k' where k: "k = Suc k'" by (cases k) auto
    with Cons.prems have "matchAt (drop k' cs) = Some g" "k' \<le> length cs" by simp_all
    from Cons.IH[OF this] None show ?thesis by simp
  qed
qed

lemma not_isDigit_dot [simp]: "\<not> isDigit CHR ''.''"
  by (simp add: isDigit_def)

lemma matchAt_pattern:
  assumes "length dd = 2" "list_all isDigit dd" "length mm = 2" "list_all isDigit mm"
    "length yyyy = 4" "list_all isDigit yyyy" "ds \<noteq> []" "list_all isDigit ds"
  shows "matchAt (dd @ ''-'' @ mm @ ''-'' @ yyyy @ ''-S'' @ ds @ ''.json'' @ post)
           = Some (dd, mm, yyyy, ds)"
proof -
  let ?tail = "ds @ ''.json'' @ post"
  have tw: "takeWhile isDigit ?tail = ds"
    using assms(8) by (simp add: takeWhile_append2 list_all_iff)
  have dw: "dropWhile isDigit ?tail = ''.json'' @ post"
    using assms(8) by (simp add: dropWhile_append2 list_all_iff)
  show ?thesis
    using assms tw dw unfolding matchAt_def Let_def
    by simp
qed

section \<open>The watermark resolver returns the maximum\<close>

lemma getLatestProcessedFile_snoc:
  "getLatestProcessedFile tz (files @ [f]) =
     (case parseSequenceFile tz f of
        None \<Rightarrow> getLatestProcessedFile tz files
      | Some (d, s) \<Rightarrow>
          (case getLatestProcessedFile tz files of
             None \<Rightarrow> Some \<lparr>date = d, sequence = s\<rparr>
           | Some w \<Rightarrow>
               if d > date w then Some \<lparr>date = d, sequence = s\<rparr>
               else if d = date w then Some \<lparr>date = d, sequence = max s (sequence w)\<rparr>
               else Some w))"
proof -
  obtain ld ls where st: "foldl (visitEntry tz) (None, - 1) files = (ld, ls)"
    by (cases "foldl (visitEntry tz) (None, - 1) files")
  show ?thesis
  proof (cases "parseSequenceFile tz f")
    case None
    then show ?thesis by (simp add: getLatestProcessedFile_def visitEntry_def)
  next
    case (Some e)
    obtain d s where e: "e = (d, s)" by (cases e)
    show ?thesis
    proof (cases ld)
      case None
      with Some e st show ?thesis
        by (simp add: getLatestProcessedFile_def visitEntry_def trackLatest_def)
    next
      case (Some latest)
      with \<open>parseSequenceFile tz f = Some e\<close> e st show ?thesis
        by (simp add: getLatestProcessedFile_def visitEntry_def trackLatest_def max_def)
    qed
  qed
qed

lemma getLatestProcessedFile_max:
  "(getLatestProcessedFile tz files = None \<longleftrightarrow> (\<forall>f \<in> set files. parseSequenceFile tz f = None))
   \<and> (\<forall>w. getLatestProcessedFile tz files = Some w \<longrightarrow>
         (\<exists>f \<in> set files. parseSequenceFile tz f = Some (date w, sequence w))
         \<and> (\<forall>f \<in> set files. \<forall>d s. parseSequenceFile tz f = Some (d, s) \<longrightarrow>
               d < date w \<or> (d = date w \<and> s \<le> sequence w)))"
  (is "?N files \<and> ?S files")
proof (induction files rule: rev_induct)
  case Nil
  show ?case by (simp add: getLatestProcessedFile_def)
next
  case (snoc f files)
  let ?r = "getLatestProcessedFile tz files"
  let ?r' = "getLatestProcessedFile tz (files @ [f])"
  show ?case
  proof (cases "parseSequenceFile tz f")
    case None
    then have "?r' = ?r" by (simp add: getLatestProcessedFile_snoc)
    with snoc None show ?thesis by simp
  next
    case (Some e)
    obtain d s where e: "e = (d, s)" by (cases e)
    have pf: "parseSequenceFile tz f = Some (d, s)" using Some e by simp
    show ?thesis
    proof (cases ?r)
      case None
      with snoc have no: "\<forall>g \<in> set files. parseSequenceFile tz g = None" by simp
      have r': "?r' = Some \<lparr>date = d, sequence = s\<rparr>"
        using pf None by (simp add: getLatestProcessedFile_snoc)
      have "\<exists>g \<in> set (files @ [f]). parseSequenceFile tz g = Some (d, s)"
        using pf by simp
      moreover have "\<forall>g \<in> set (files @ [f]). \<forall>d' s'. parseSequenceFile tz g = Some (d', s') \<longrightarrow>
               d' < d \<or> (d' = d \<and> s' \<le> s)"
        using no pf by auto
      ultimately show ?thesis using r' pf by simp
    next
      case (Some w)
      with snoc have
        ex: "\<exists>g \<in> set files. parseSequenceFile tz g = Some (date w, sequence w)" and
        ub: "\<forall>g \<in> set files. \<forall>d s. parseSequenceFile tz g = Some (d, s) \<longrightarrow>
               d < date w \<or> (d = date w \<and> s \<le> sequence w)"
        by simp_all
      define w' where "w' = (if d > date w then \<lparr>date = d, sequence = s\<rparr>
               else if d = date w then \<lparr>date = d, sequence = max s (sequence w)\<rparr>
               else w)"
      have r': "?r' = Some w'"
        using pf Some by (simp add: getLatestProcessedFile_snoc w'_def)
      have ne: "parseSequenceFile tz f \<noteq> None" using pf by simp
      have ex': "\<exists>g \<in> set (files @ [f]). parseSequenceFile tz g = Some (date w', sequence w')"
      proof -
        consider "d > date w" | "d = date w" "s \<ge> sequence w" | "d = date w" "s < sequence w"
          | "d < date w" by linarith
        then show ?thesis
        proof cases
          case 1
          then have "(date w', sequence w') = (d, s)" by (simp add: w'_def)
          with pf show ?thesis by simp
        next
          case 2
          then have "(date w', sequence w') = (d, s)" by (simp add: w'_def max_def)
          with pf show ?thesis by simp
        next
          case 3
          then have "(date w', sequence w') = (date w, sequence w)" by (simp add: w'_def max_def)
          with ex show ?thesis by auto
        next
          case 4
          then have "(date w', sequence w') = (date w, sequence w)" by (simp add: w'_def)
          with ex show ?thesis by auto
        qed
      qed
      have ge: "date w \<le> date w'" "date w = date w' \<Longrightarrow> sequence w \<le> sequence w'"
        "d < date w' \<or> (d = date w' \<and> s \<le> sequence w')"
        by (auto simp: w'_def max_def)
      have ub': "\<forall>g \<in> set (files @ [f]). \<forall>d' s'. parseSequenceFile tz g = Some (d', s') \<longrightarrow>
               d' < date w' \<or> (d' = date w' \<and> s' \<le> sequence w')"
      proof (intro ballI allI impI)
        fix g d' s'
        assume g: "g \<in> set (files @ [f])" and p: "parseSequenceFile tz g = Some (d', s')"
        show "d' < date w' \<or> (d' = date w' \<and> s' \<le> sequence w')"
        proof (cases "g = f")
          case True
          with p pf have "d' = d" "s' = s" by simp_all
          with ge(3) show ?thesis by simp
        next
          case False
          with g have "g \<in> set files" by simp
          with ub p have "d' < date w \<or> (d' = date w \<and> s' \<le> sequence w)" by blast
          with ge(1,2) show ?thesis by linarith
        qed
      qed
      show ?thesis using r' ex' ub' ne by simp
    qed
  qed
qed

section \<open>What a run of the incremental sync does\<close>

lemma map_of_putFile: "map_of (putFile d path content) = (map_of d)(path \<mapsto> content)"
  by (induction d path content rule: putFile.induct) (auto simp: fun_eq_iff)

lemma writeFileSync_returns:
  "snd (writeFileSync faults d path content) = None \<longleftrightarrow> path \<notin> set (map fst faults)"
proof (cases "map_of faults path")
  case None
  then have "path \<notin> set (map fst faults)" by (simp add: map_of_eq_None_iff)
  with None show ?thesis by (simp add: writeFileSync_def)
next
  case (Some w)
  then have "path \<in> set (map fst faults)" by (metis map_of_eq_None_iff option.distinct(1) set_map)
  with Some show ?thesis by (cases w) (simp_all add: writeFileSync_def)
qed

lemma saveFile_events:
  "events (saveFile faults dateStr i fd st) = events st @ objectEvents faults dateStr i fd"
proof (cases "download (file' fd)")
  case (Inl e)
  then show ?thesis by (simp add: saveFile_def objectEvents_def savedAs_def)
next
  case (Inr contents)
  show ?thesis
  proof (cases "trim contents = []")
    case True
    with Inr show ?thesis by (simp add: saveFile_def objectEvents_def savedAs_def)
  next
    case False
    let ?name = "sequenceFileName dateStr i"
    let ?st1 = "st\<lparr>events := events st @ [Download (file' fd)]\<rparr>"
    obtain d r where w: "writeFileSync faults (dir ?st1) ?name (trim contents) = (d, r)"
      by (cases "writeFileSync faults (dir ?st1) ?name (trim contents)")
    have r: "r = None \<longleftrightarrow> ?name \<notin> set (map fst faults)"
      using writeFileSync_returns[of faults "dir ?st1" ?name "trim contents"] w by simp
    show ?thesis
    proof (cases r)
      case None
      with r Inr False w show ?thesis
        by (simp add: saveFile_def objectEvents_def savedAs_def Let_def)
    next
      case (Some e)
      with r Inr False w show ?thesis
        by (simp add: saveFile_def objectEvents_def savedAs_def Let_def)
    qed
  qed
qed

lemma processDateFiles_events:
  "events (processDateFiles faults dateStr dateFiles i st)
     = events st @ concat (map (\<lambda>j. objectEvents faults dateStr j (dateFiles ! j))
                             [i..<length dateFiles])"
proof (induction faults dateStr dateFiles i st rule: processDateFiles.induct)
  case (1 faults dateStr dateFiles i st)
  show ?case
  proof (cases "i < length dateFiles")
    case True
    then have "[i..<length dateFiles] = i # [Suc i..<length dateFiles]"
      by (simp add: upt_conv_Cons)
    with True "1.IH" show ?thesis
      by (subst processDateFiles.simps) (simp add: saveFile_events)
  next
    case False
    then show ?thesis by (subst processDateFiles.simps) simp
  qed
qed

lemma processGroups_events:
  "events (processGroups faults groups st)
     = events st @ concat (map (groupEvents faults) groups)"
proof (induction groups arbitrary: st)
  case Nil
  show ?case by (simp add: processGroups_def)
next
  case (Cons g groups)
  obtain dateStr dateFiles where g: "g = (dateStr, dateFiles)" by (cases g)
  have "processGroups faults (g # groups) st
          = processGroups faults groups (processDateFiles faults dateStr dateFiles 0 st)"
    by (simp add: processGroups_def g)
  with Cons.IH show ?case
    by (simp add: g processDateFiles_events groupEvents_def)
qed

lemma selectFiles_Inr:
  "selectFiles lp files = Inr js \<Longrightarrow>
     map file' js = filter (included lp) files
     \<and> (\<forall>fd \<in> set js. \<exists>md. getMetadata (file' fd) = Inr md \<and> created fd = timeCreated md)"
proof (induction files arbitrary: js)
  case Nil
  then show ?case by simp
next
  case (Cons f files)
  show ?case
  proof (cases "endsWith (File.name f) ''.json''")
    case False
    with Cons show ?thesis by (simp add: included_def)
  next
    case True
    show ?thesis
    proof (cases "getMetadata f")
      case (Inl e)
      with True Cons.prems show ?thesis by simp
    next
      case (Inr md)
      show ?thesis
      proof (cases "case lp of None \<Rightarrow> False | Some w \<Rightarrow> timeCreated md \<le> date w")
        case skip: True
        then have "\<not> included lp f"
          by (auto simp: included_def Inr split: option.splits)
        moreover from skip True Inr Cons.prems have "selectFiles lp files = Inr js" by simp
        ultimately show ?thesis using Cons.IH by simp
      next
        case keep: False
        then have inc: "included lp f"
          using True by (auto simp: included_def Inr split: option.splits)
        from keep True Inr Cons.prems obtain js' where
          js': "selectFiles lp files = Inr js'"
          and js: "js = \<lparr>file' = f, created = timeCreated md, name = File.name f\<rparr> # js'"
          by (auto split: sum.splits)
        from Cons.IH[OF js'] inc js Inr show ?thesis by simp
      qed
    qed
  qed
qed

lemma pushToGroup_keys:
  "map fst (pushToGroup m k x) = (if k \<in> set (map fst m) then map fst m else map fst m @ [k])"
  by (induction m k x rule: pushToGroup.induct) auto

lemma map_of_pushToGroup:
  "map_of (pushToGroup m k x)
     = (map_of m)(k \<mapsto> (case map_of m k of None \<Rightarrow> [] | Some fs \<Rightarrow> fs) @ [x])"
  by (induction m k x rule: pushToGroup.induct) (auto simp: fun_eq_iff)

lemma groupByDate_snoc:
  "groupByDate tz (xs @ [x]) = pushToGroup (groupByDate tz xs) (formatDate tz (created x)) x"
  by (simp add: groupByDate_def)

lemma groupByDate_distinct: "distinct (map fst (groupByDate tz xs))"
proof (induction xs rule: rev_induct)
  case Nil
  show ?case by (simp add: groupByDate_def)
next
  case (snoc x xs)
  then show ?case by (simp add: groupByDate_snoc pushToGroup_keys del: set_map)
qed

lemma map_of_groupByDate:
  "map_of (groupByDate tz xs) k =
     (if filter (\<lambda>fd. formatDate tz (created fd) = k) xs = [] then None
      else Some (filter (\<lambda>fd. formatDate tz (created fd) = k) xs))"
proof (induction xs arbitrary: k rule: rev_induct)
  case Nil
  show ?case by (simp add: groupByDate_def)
next
  case (snoc x xs)
  then show ?case by (simp add: groupByDate_snoc map_of_pushToGroup)
qed

lemma groupByDate_member:
  "(k, g) \<in> set (groupByDate tz xs) \<longleftrightarrow>
     g \<noteq> [] \<and> g = filter (\<lambda>fd. formatDate tz (created fd) = k) xs"
proof -
  have "(k, g) \<in> set (groupByDate tz xs) \<longleftrightarrow> map_of (groupByDate tz xs) k = Some g"
    using groupByDate_distinct[of tz xs] by simp
  then show ?thesis by (auto simp: map_of_groupByDate)
qed

lemma groupByDate_set: "set (concat (map snd (groupByDate tz xs))) = set xs"
proof
  show "set (concat (map snd (groupByDate tz xs))) \<subseteq> set xs"
  proof
    fix x assume "x \<in> set (concat (map snd (groupByDate tz xs)))"
    then obtain k g where "(k, g) \<in> set (groupByDate tz xs)" "x \<in> set g" by auto
    then show "x \<in> set xs" by (auto simp: groupByDate_member)
  qed
next
  show "set xs \<subseteq> set (concat (map snd (groupByDate tz xs)))"
  proof
    fix x assume x: "x \<in> set xs"
    let ?k = "formatDate tz (created x)"
    let ?g = "filter (\<lambda>fd. formatDate tz (created fd) = ?k) xs"
    from x have m: "x \<in> set ?g" by simp
    then have "?g \<noteq> []" by (cases ?g) simp_all
    then have "(?k, ?g) \<in> set (groupByDate tz xs)" by (simp add: groupByDate_member)
    with m show "x \<in> set (concat (map snd (groupByDate tz xs)))" by force
  qed
qed

lemma set_objectEvents:
  "set (objectEvents faults dateStr i fd)
     \<subseteq> insert (Download (file' fd)) {Saved (file' fd) p t | p t. True}"
  by (auto simp: objectEvents_def split: option.splits)

lemma Download_in_groupEvents:
  "Download f \<in> set (groupEvents faults g) \<longleftrightarrow> f \<in> file' ` set (snd g)"
proof
  assume "Download f \<in> set (groupEvents faults g)"
  then obtain i where "i < length (snd g)"
    "Download f \<in> set (objectEvents faults (fst g) i (snd g ! i))"
    by (auto simp: groupEvents_def)
  then show "f \<in> file' ` set (snd g)"
    by (auto simp: objectEvents_def split: option.splits)
next
  assume "f \<in> file' ` set (snd g)"
  then obtain i where "i < length (snd g)" "f = file' (snd g ! i)"
    by (auto simp: in_set_conv_nth)
  then show "Download f \<in> set (groupEvents faults g)"
    by (auto simp: groupEvents_def objectEvents_def)
qed

lemma Saved_in_groupEvents:
  "Saved f p t \<in> set (groupEvents faults g) \<Longrightarrow> f \<in> file' ` set (snd g)"
proof -
  assume "Saved f p t \<in> set (groupEvents faults g)"
  then obtain i where "i < length (snd g)"
    "Saved f p t \<in> set (objectEvents faults (fst g) i (snd g ! i))"
    by (auto simp: groupEvents_def)
  then show "f \<in> file' ` set (snd g)"
    by (auto simp: objectEvents_def split: option.splits)
qed

lemma run_events_objects:
  "(Download f \<in> set (concat (map (groupEvents faults) (groupByDate tz xs)))
      \<longleftrightarrow> f \<in> file' ` set xs)
   \<and> (Saved f p t \<in> set (concat (map (groupEvents faults) (groupByDate tz xs)))
      \<longrightarrow> f \<in> file' ` set xs)"
proof -
  let ?groups = "groupByDate tz xs"
  have u: "f \<in> file' ` set xs \<longleftrightarrow> (\<exists>g \<in> set ?groups. f \<in> file' ` set (snd g))"
  proof -
    have "set xs = (\<Union>g \<in> set ?groups. set (snd g))"
      using groupByDate_set[of tz xs] by simp
    then show ?thesis by blast
  qed
  have 1: "Download f \<in> set (concat (map (groupEvents faults) ?groups))
      \<longleftrightarrow> f \<in> file' ` set xs"
    unfolding u by (simp add: Download_in_groupEvents)
  have 2: "f \<in> file' ` set xs"
    if "Saved f p t \<in> set (concat (map (groupEvents faults) ?groups))"
  proof -
    from that obtain g where "g \<in> set ?groups" "Saved f p t \<in> set (groupEvents faults g)"
      by auto
    then show ?thesis unfolding u using Saved_in_groupEvents by blast
  qed
  from 1 2 show ?thesis by blast
qed

lemma downloadAndSaveJSON_Inr:
  assumes "downloadAndSaveJSON tz faults (Inr files) d = Inr out"
  shows "\<exists>jsonFiles.
           selectFiles (getLatestProcessedFile tz (readdirSync d)) files = Inr jsonFiles
           \<and> out = processGroups faults (groupByDate tz (sort_key created jsonFiles))
                     \<lparr>dir = d, events = []\<rparr>"
  using assms by (auto simp: downloadAndSaveJSON_def Let_def split: sum.splits)

lemma selectFiles_metadata:
  "selectFiles lp files = Inr js \<Longrightarrow> f \<in> set files \<Longrightarrow> endsWith (File.name f) ''.json''
     \<Longrightarrow> \<exists>md. getMetadata f = Inr md"
proof (induction files arbitrary: js)
  case Nil
  then show ?case by simp
next
  case (Cons g files)
  from Cons.prems(1) obtain js' where js': "selectFiles lp files = Inr js'"
    by (auto split: if_splits sum.splits)
  show ?case
  proof (cases "f = g")
    case True
    with Cons.prems show ?thesis by (cases "getMetadata g") auto
  next
    case False
    with Cons.prems have "f \<in> set files" by simp
    from Cons.IH[OF js' this Cons.prems(3)] show ?thesis .
  qed
qed

section \<open>Facts about the calendar, the normalizer and the aggregation\<close>









lemma selectToday_Inr:
  "selectToday clock k files = Inr jsonFiles \<Longrightarrow>
     map file' jsonFiles
       = map snd (filter (\<lambda>(n, f). stringIncludes (File.name f) (formatDatePath (clock n)))
                    (enumerate k (filter (\<lambda>f. endsWith (File.name f) ''.json'') files)))"
proof (induction files arbitrary: k jsonFiles)
  case Nil
  then show ?case by simp
next
  case (Cons f files)
  show ?case
  proof (cases "endsWith (File.name f) ''.json''")
    case False
    with Cons show ?thesis by simp
  next
    case True
    show ?thesis
    proof (cases "isFromToday (clock k) (File.name f)")
      case False
      with True Cons.prems have "selectToday clock (Suc k) files = Inr jsonFiles" by simp
      from Cons.IH[OF this] True False show ?thesis by (simp add: isFromToday_def)
    next
      case today: True
      show ?thesis
      proof (cases "getMetadata f")
        case (Inl e)
        with True today Cons.prems show ?thesis by simp
      next
        case (Inr md)
        show ?thesis
        proof (cases "selectToday clock (Suc k) files")
          case (Inl e)
          with Inr True today Cons.prems show ?thesis by simp
        next
          case rest: (Inr js')
          with Inr True today Cons.prems have
            "jsonFiles = \<lparr>file' = f, created = timeCreated md, name = File.name f\<rparr> # js'"
            by simp
          with Cons.IH[OF rest] True today show ?thesis by (simp add: isFromToday_def)
        qed
      qed
    qed
  qed
qed

lemma selectToday_same_day:
  assumes "selectToday clock k files = Inr jsonFiles" "\<forall>n. formatDatePath (clock n) = todayPath"
  shows "map file' jsonFiles
       = filter (\<lambda>f. endsWith (File.name f) ''.json'' \<and> stringIncludes (File.name f) todayPath) files"
proof -
  have "map snd (filter (\<lambda>(n, f). P f) (enumerate k xs)) = filter P xs" for P :: "File \<Rightarrow> bool" and xs k
    by (induction xs arbitrary: k) simp_all
  from this[of "\<lambda>f. stringIncludes (File.name f) todayPath" k
      "filter (\<lambda>f. endsWith (File.name f) ''.json'') files"]
    selectToday_Inr[OF assms(1)] assms(2)
  show ?thesis by (simp add: conj_commute)
qed

lemma parseLines_eq:
  "parseLines lines
     = Inr (List.map_filter
              (\<lambda>line. case JSON_parse (trim line) of Inl e \<Rightarrow> None | Inr v \<Rightarrow> Some v)
              (filter (\<lambda>line. trim line \<noteq> []) lines))"
proof (induction lines)
  case Nil
  show ?case by (simp add: List.map_filter_simps)
next
  case (Cons line lines)
  show ?case
  proof (cases "trim line = []")
    case True
    with Cons show ?thesis by simp
  next
    case False
    with Cons show ?thesis
      by (cases "JSON_parse (trim line)") (simp_all add: List.map_filter_simps)
  qed
qed

lemma parseJsonContent_eq:
  "parseJsonContent content
     = Inr (if trim content = [] then []
            else case JSON_parse (trim content) of
                   Inr (JArray vs) \<Rightarrow> vs
                 | Inr v \<Rightarrow> [v]
                 | Inl e \<Rightarrow>
                     List.map_filter
                       (\<lambda>line. case JSON_parse (trim line) of Inl e \<Rightarrow> None | Inr v \<Rightarrow> Some v)
                       (filter (\<lambda>line. trim line \<noteq> []) (splitLines (trim content))))"
proof (cases "trim content = []")
  case True
  then show ?thesis by (simp add: parseJsonContent_def)
next
  case False
  show ?thesis
  proof (cases "JSON_parse (trim content)")
    case (Inl e)
    with False show ?thesis by (simp add: parseJsonContent_def parseLines_eq)
  next
    case (Inr v)
    with False show ?thesis by (cases v) (simp_all add: parseJsonContent_def)
  qed
qed


lemma sort_two:
  assumes "jsonFiles = [a, b] \<or> jsonFiles = [b, a]" "created a < created b"
  shows "sort_key created jsonFiles = [a, b]"
  using assms by auto

lemma content_x:
  "trim ''{\"x\":1}'' \<noteq> []"
  "parseJsonContent ''{\"x\":1}'' = Inr [JObject [(''x'', JNumber 1 0)]]"
  "JSON_stringify (JObject [(''x'', JNumber 1 0)]) = ''{\"x\":1}''"
  by code_simp+

lemma content_y:
  "trim (''{\"y\":2}'' @ [CHR 0x0A] @ ''{\"y\":3}'') \<noteq> []"
  "parseJsonContent (''{\"y\":2}'' @ [CHR 0x0A] @ ''{\"y\":3}'')
     = Inr [JObject [(''y'', JNumber 2 0)], JObject [(''y'', JNumber 3 0)]]"
  "JSON_stringify (JObject [(''y'', JNumber 2 0)]) = ''{\"y\":2}''"
  "JSON_stringify (JObject [(''y'', JNumber 3 0)]) = ''{\"y\":3}''"
  by code_simp+

lemma streamWrite_dir:
  "map_of (dir (streamWrite path chunk st))
     = (map_of (dir st))(path \<mapsto> (case map_of (dir st) path of None \<Rightarrow> [] | Some text \<Rightarrow> text) @ chunk)"
  by (simp add: streamWrite_def map_of_putFile)

lemma streamWrite_events:
  "events (streamWrite path chunk st) = events st @ [Written path chunk]"
  by (simp add: streamWrite_def)





section \<open>The claims\<close>

text \<open>
  Claim C2. For every list of directory entries, the resolver returns nothing exactly
  when no entry matches the sequence-file pattern; otherwise it returns a (date, sequence)
  pair that some matching entry carries and that is greater than or equal to the pair of
  every matching entry in the lexicographic order: a later date wins whatever the
  sequence, and equal dates compare by sequence. Entry by entry, a strictly later date
  replaces the maximum with that entry's pair, and an equal date keeps the larger sequence.
\<close>

theorem watermark_is_lexicographic_maximum:
  "(getLatestProcessedFile tz files = None \<longleftrightarrow> (\<forall>f \<in> set files. parseSequenceFile tz f = None))
   \<and> (\<forall>w. getLatestProcessedFile tz files = Some w \<longrightarrow>
         (\<exists>f \<in> set files. parseSequenceFile tz f = Some (date w, sequence w))
         \<and> (\<forall>f \<in> set files. \<forall>d s. parseSequenceFile tz f = Some (d, s) \<longrightarrow>
               d < date w \<or> (d = date w \<and> s \<le> sequence w)))
   \<and> (\<forall>f. getLatestProcessedFile tz (files @ [f]) =
         (case parseSequenceFile tz f of
            None \<Rightarrow> getLatestProcessedFile tz files
          | Some (d, s) \<Rightarrow>
              (case getLatestProcessedFile tz files of
                 None \<Rightarrow> Some \<lparr>date = d, sequence = s\<rparr>
               | Some w \<Rightarrow>
                   if d > date w then Some \<lparr>date = d, sequence = s\<rparr>
                   else if d = date w then Some \<lparr>date = d, sequence = max s (sequence w)\<rparr>
                   else Some w)))"
  using getLatestProcessedFile_max[of tz files] getLatestProcessedFile_snoc[of tz files]
  by blast

theorem watermark_is_lexicographic_maximum_witness:
  "getLatestProcessedFile 0
     [''06-03-2024-S0.json'', ''readme.txt'', ''06-03-2024-S1.json'', ''05-03-2024-S7.json'',
      ''07-03-2024.json'']
     = Some \<lparr>date = 1709683200000, sequence = 1\<rparr>
   \<and> parseSequenceFile 0 ''06-03-2024-S1.json'' = Some (1709683200000, 1)
   \<and> parseSequenceFile 0 ''05-03-2024-S7.json'' = Some (1709596800000, 7)
   \<and> (1709596800000 :: int) < 1709683200000
   \<and> getLatestProcessedFile 0 [''readme.txt'', ''07-03-2024.json''] = None"
proof -
  let ?files = "[''06-03-2024-S0.json'', ''readme.txt'', ''06-03-2024-S1.json'',
    ''05-03-2024-S7.json'', ''07-03-2024.json'']"
  let ?w = "\<lparr>date = 1709683200000, sequence = 1\<rparr>"
  have r: "getLatestProcessedFile 0 ?files = Some ?w"
    by code_simp
  have p: "parseSequenceFile 0 ''05-03-2024-S7.json'' = Some (1709596800000, 7)"
    by code_simp
  have q: "parseSequenceFile 0 ''06-03-2024-S1.json'' = Some (1709683200000, 1)"
    by code_simp
  have m: "''05-03-2024-S7.json'' \<in> set ?files" by simp
  from watermark_is_lexicographic_maximum[of 0 ?files] r
  have "\<forall>f \<in> set ?files. \<forall>d s. parseSequenceFile 0 f = Some (d, s) \<longrightarrow>
               d < date ?w \<or> (d = date ?w \<and> s \<le> sequence ?w)"
    by blast
  with m p have "(1709596800000 :: int) < date ?w \<or> ((1709596800000 :: int) = date ?w \<and> 7 \<le> sequence ?w)"
    by blast
  then have lt: "(1709596800000 :: int) < 1709683200000" by simp
  have "\<forall>f \<in> set [''readme.txt'', ''07-03-2024.json'']. parseSequenceFile 0 f = None"
    by code_simp
  with watermark_is_lexicographic_maximum[of 0 "[''readme.txt'', ''07-03-2024.json'']"]
  have n: "getLatestProcessedFile 0 [''readme.txt'', ''07-03-2024.json''] = None"
    by blast
  from r q p lt n show ?thesis by blast
qed

text \<open>
  Claim C10. The pattern match is not anchored. An entry that ends with \<open>.json\<close>
  and contains \<open>DD-MM-YYYY-S<digits>.json\<close> anywhere is treated as a sequence
  file and gives a watermark; where no match starts further left, the pair it contributes
  is the one embedded at that place.
\<close>

theorem unanchored_pattern_is_sequence_file:
  assumes "endsWith file ''.json''"
    and "file = pre @ dd @ ''-'' @ mm @ ''-'' @ yyyy @ ''-S'' @ ds @ ''.json'' @ post"
    and "length dd = 2" "list_all isDigit dd" "length mm = 2" "list_all isDigit mm"
    and "length yyyy = 4" "list_all isDigit yyyy" "ds \<noteq> []" "list_all isDigit ds"
  shows "parseSequenceFile tz file \<noteq> None
    \<and> getLatestProcessedFile tz [file] \<noteq> None
    \<and> ((\<forall>k<length pre. matchAt (drop k file) = None) \<longrightarrow>
          parseSequenceFile tz file
            = Some (newDate tz (parseInt yyyy) (parseInt mm - 1) (parseInt dd), parseInt ds)
          \<and> getLatestProcessedFile tz [file]
            = Some \<lparr>date = newDate tz (parseInt yyyy) (parseInt mm - 1) (parseInt dd),
                     sequence = parseInt ds\<rparr>)"
proof -
  let ?emb = "dd @ ''-'' @ mm @ ''-'' @ yyyy @ ''-S'' @ ds @ ''.json'' @ post"
  have m: "matchAt (drop (length pre) file) = Some (dd, mm, yyyy, ds)"
    using matchAt_pattern[OF assms(3-10), of post] assms(2) by simp
  have l: "length pre \<le> length file" using assms(2) by simp
  have found: "regexMatch file \<noteq> None" using regexMatch_found[OF m l] .
  then have 1: "parseSequenceFile tz file \<noteq> None"
    using assms(1) by (auto simp: parseSequenceFile_def split: option.splits)
  then have 2: "getLatestProcessedFile tz [file] \<noteq> None"
    by (auto simp: getLatestProcessedFile_def visitEntry_def trackLatest_def split: option.splits prod.splits)
  have 3: "parseSequenceFile tz file
            = Some (newDate tz (parseInt yyyy) (parseInt mm - 1) (parseInt dd), parseInt ds)
          \<and> getLatestProcessedFile tz [file]
            = Some \<lparr>date = newDate tz (parseInt yyyy) (parseInt mm - 1) (parseInt dd),
                     sequence = parseInt ds\<rparr>"
    if "\<forall>k<length pre. matchAt (drop k file) = None"
  proof -
    have "regexMatch file = Some (dd, mm, yyyy, ds)"
      using regexMatch_leftmost[OF m that l] .
    then have "parseSequenceFile tz file
            = Some (newDate tz (parseInt yyyy) (parseInt mm - 1) (parseInt dd), parseInt ds)"
      using assms(1) by (simp add: parseSequenceFile_def)
    then show ?thesis
      by (simp add: getLatestProcessedFile_def visitEntry_def trackLatest_def)
  qed
  from 1 2 3 show ?thesis by blast
qed

theorem unanchored_pattern_is_sequence_file_witness:
  "endsWith ''backup-07-03-2024-S3.json'' ''.json''
   \<and> ''backup-07-03-2024-S3.json'' \<noteq> ''07-03-2024-S3.json''
   \<and> parseSequenceFile 0 ''backup-07-03-2024-S3.json'' = Some (newDate 0 2024 2 7, 3)
   \<and> getLatestProcessedFile 0 [''backup-07-03-2024-S3.json'']
        = Some \<lparr>date = newDate 0 2024 2 7, sequence = 3\<rparr>"
proof -
  let ?file = "''backup-07-03-2024-S3.json''"
  have e: "endsWith ?file ''.json''" by code_simp
  have f: "?file = ''backup-'' @ ''07'' @ ''-'' @ ''03'' @ ''-'' @ ''2024'' @ ''-S'' @ ''3'' @ ''.json'' @ ''''"
    by simp
  have d: "list_all isDigit ''07''" "list_all isDigit ''03''" "list_all isDigit ''2024''"
    "list_all isDigit ''3''" by code_simp+
  have "\<forall>k \<in> set [0..<7]. matchAt (drop k ?file) = None" by code_simp
  then have n: "\<forall>k<length ''backup-''. matchAt (drop k ?file) = None" by simp
  have v: "parseInt ''2024'' = 2024" "parseInt ''03'' - 1 = 2" "parseInt ''07'' = 7" "parseInt ''3'' = 3"
    by code_simp+
  from unanchored_pattern_is_sequence_file[OF e f _ d(1) _ d(2) _ d(3) _ d(4), of 0] n
  have "parseSequenceFile 0 ?file
            = Some (newDate 0 (parseInt ''2024'') (parseInt ''03'' - 1) (parseInt ''07''), parseInt ''3'')
          \<and> getLatestProcessedFile 0 [?file]
            = Some \<lparr>date = newDate 0 (parseInt ''2024'') (parseInt ''03'' - 1) (parseInt ''07''),
                     sequence = parseInt ''3''\<rparr>"
    by simp
  with e show ?thesis unfolding v by simp
qed

text \<open>
  Claim C1. In a run of the incremental sync that returns, an object is downloaded exactly
  when it is listed, its name has the JSON extension and its creation time is strictly
  later than the date of the watermark resolved from the output folder, or there is no
  watermark; a file is written only for such an object. So an object created at or
  before the watermark's date is neither downloaded nor written, and without a
  watermark every listed object with a JSON-extension name is downloaded.
\<close>

theorem no_object_at_or_before_watermark_is_processed:
  assumes "downloadAndSaveJSON tz faults (Inr files) d = Inr out"
  shows "(Download f \<in> set (events out)
            \<longleftrightarrow> f \<in> set files \<and> included (getLatestProcessedFile tz (readdirSync d)) f)
    \<and> (Saved f p t \<in> set (events out)
            \<longrightarrow> f \<in> set files \<and> included (getLatestProcessedFile tz (readdirSync d)) f)
    \<and> (\<forall>w md. getLatestProcessedFile tz (readdirSync d) = Some w \<and> getMetadata f = Inr md
            \<and> timeCreated md \<le> date w
          \<longrightarrow> Download f \<notin> set (events out) \<and> Saved f p t \<notin> set (events out))
    \<and> (getLatestProcessedFile tz (readdirSync d) = None \<and> f \<in> set files
            \<and> endsWith (File.name f) ''.json''
          \<longrightarrow> Download f \<in> set (events out))"
proof -
  let ?lp = "getLatestProcessedFile tz (readdirSync d)"
  from downloadAndSaveJSON_Inr[OF assms] obtain jsonFiles where
    sel: "selectFiles ?lp files = Inr jsonFiles" and
    out: "out = processGroups faults (groupByDate tz (sort_key created jsonFiles))
                  \<lparr>dir = d, events = []\<rparr>"
    by blast
  have ev: "events out
      = concat (map (groupEvents faults) (groupByDate tz (sort_key created jsonFiles)))"
    by (simp add: out processGroups_events)
  have objs: "file' ` set (sort_key created jsonFiles) = {f \<in> set files. included ?lp f}"
  proof -
    have "file' ` set jsonFiles = set (map file' jsonFiles)" by simp
    also have "\<dots> = set (filter (included ?lp) files)"
      using selectFiles_Inr[OF sel] by simp
    finally show ?thesis by simp
  qed
  have 1: "Download f \<in> set (events out) \<longleftrightarrow> f \<in> set files \<and> included ?lp f"
    using run_events_objects[of f faults tz "sort_key created jsonFiles" p t] objs
    unfolding ev by blast
  have 2: "Saved f p t \<in> set (events out) \<longrightarrow> f \<in> set files \<and> included ?lp f"
    using run_events_objects[of f faults tz "sort_key created jsonFiles" p t] objs
    unfolding ev by blast
  have 3: "Download f \<notin> set (events out) \<and> Saved f p t \<notin> set (events out)"
    if "?lp = Some w" "getMetadata f = Inr md" "timeCreated md \<le> date w" for w md
  proof -
    from that have "\<not> included ?lp f" by (simp add: included_def)
    with 1 2 show ?thesis by blast
  qed
  have 4: "Download f \<in> set (events out)"
    if "?lp = None" "f \<in> set files" "endsWith (File.name f) ''.json''"
  proof -
    from selectFiles_metadata[OF sel that(2,3)] obtain md where "getMetadata f = Inr md" ..
    with that have "included ?lp f" by (simp add: included_def)
    with 1 that show ?thesis by blast
  qed
  from 1 2 3 4 show ?thesis by blast
qed

theorem no_object_at_or_before_watermark_is_processed_witness:
  "getLatestProcessedFile 0
     (readdirSync [(''06-03-2024-S0.json'', ''{\"p\":0}''), (''06-03-2024-S1.json'', ''{\"q\":0}'')])
     = Some \<lparr>date = 1709683200000, sequence = 1\<rparr>
   \<and> getMetadata objA = Inr \<lparr>timeCreated = 1709632800000, size' = 7\<rparr>
   \<and> (1709632800000 :: int) \<le> 1709683200000
   \<and> downloadAndSaveJSON 0 [] (Inr [objA, objB, objN])
        [(''06-03-2024-S0.json'', ''{\"p\":0}''), (''06-03-2024-S1.json'', ''{\"q\":0}'')]
      = Inr \<lparr>dir = [(''06-03-2024-S0.json'', ''{\"p\":0}''), (''06-03-2024-S1.json'', ''{\"q\":0}''),
                     (''07-03-2024-S0.json'', ''{\"b\":2}'')],
               events = [Download objB, Saved objB ''07-03-2024-S0.json'' ''{\"b\":2}'']\<rparr>
   \<and> Download objA \<notin> set [Download objB, Saved objB ''07-03-2024-S0.json'' ''{\"b\":2}'']
   \<and> Download objB \<in> set [Download objB, Saved objB ''07-03-2024-S0.json'' ''{\"b\":2}'']"
proof -
  let ?d = "[(''06-03-2024-S0.json'', ''{\"p\":0}''), (''06-03-2024-S1.json'', ''{\"q\":0}'')]"
  let ?evs = "[Download objB, Saved objB ''07-03-2024-S0.json'' ''{\"b\":2}'']"
  let ?out = "\<lparr>dir = ?d @ [(''07-03-2024-S0.json'', ''{\"b\":2}'')], events = ?evs\<rparr>"
  have run: "downloadAndSaveJSON 0 [] (Inr [objA, objB, objN]) ?d = Inr ?out"
    by code_simp
  have wm: "getLatestProcessedFile 0 (readdirSync ?d) = Some \<lparr>date = 1709683200000, sequence = 1\<rparr>"
    by code_simp
  have md: "getMetadata objA = Inr \<lparr>timeCreated = 1709632800000, size' = 7\<rparr>"
    by (simp add: objA_def)
  have inc: "included (getLatestProcessedFile 0 (readdirSync ?d)) objB"
    by code_simp
  note t = no_object_at_or_before_watermark_is_processed[OF run]
  have le: "timeCreated \<lparr>timeCreated = 1709632800000, size' = 7\<rparr>
      \<le> date \<lparr>date = 1709683200000, sequence = 1\<rparr>"
    by simp
  from t[of objA "[]" "[]"] have
    "\<forall>w md. getLatestProcessedFile 0 (readdirSync ?d) = Some w \<and> getMetadata objA = Inr md
            \<and> timeCreated md \<le> date w
          \<longrightarrow> Download objA \<notin> set (events ?out) \<and> Saved objA [] [] \<notin> set (events ?out)"
    by blast
  from this[rule_format, OF conjI[OF wm conjI[OF md le]]]
  have a: "Download objA \<notin> set ?evs" by simp
  have mem: "objB \<in> set [objA, objB, objN]" by simp
  from t[of objB "[]" "[]"] mem inc have "Download objB \<in> set (events ?out)" by blast
  then have b: "Download objB \<in> set ?evs" by simp
  have c: "(1709632800000 :: int) \<le> 1709683200000" using le by simp
  from run have run': "downloadAndSaveJSON 0 [] (Inr [objA, objB, objN]) ?d
      = Inr \<lparr>dir = [(''06-03-2024-S0.json'', ''{\"p\":0}''), (''06-03-2024-S1.json'', ''{\"q\":0}''),
                     (''07-03-2024-S0.json'', ''{\"b\":2}'')],
               events = ?evs\<rparr>" by simp
  from run' wm md a b c show ?thesis by blast
qed

text \<open>
  Claim C3 as stated fails: the written numbers have a gap where an object is skipped.
  The two objects below share the date 07-03-2024; the earlier one holds only white
  space and is skipped, and the run writes the later one under the number 1, so that
  the numbers written for that date do not start at 0.
\<close>

theorem sequence_numbers_have_gaps_counterexample:
  "downloadAndSaveJSON 0 [] (Inr [objE, objB]) []
   = Inr \<lparr>dir = [(''07-03-2024-S1.json'', ''{\"b\":2}'')],
            events = [Download objE, Download objB,
                      Saved objB ''07-03-2024-S1.json'' ''{\"b\":2}'']\<rparr>"
  by code_simp

text \<open>
  Claim C3, amended. In a run of the incremental sync, the objects of a date group are
  those selected objects whose compact local date is the group's, in ascending order of
  creation time, and the object at position \<open>i\<close> of the group (from 0, counting the
  objects that are skipped) is written, if it is written, to \<open><date>-S<i>.json\<close>.
\<close>

theorem written_name_carries_position_in_date_group:
  assumes "selectFiles (getLatestProcessedFile tz (readdirSync d)) files = Inr jsonFiles"
  shows "\<exists>out. downloadAndSaveJSON tz faults (Inr files) d = Inr out
    \<and> events out
        = concat (map (groupEvents faults) (groupByDate tz (sort_key created jsonFiles)))
    \<and> distinct (map fst (groupByDate tz (sort_key created jsonFiles)))
    \<and> (\<forall>g \<in> set (groupByDate tz (sort_key created jsonFiles)).
          snd g = filter (\<lambda>fd. formatDate tz (created fd) = fst g) (sort_key created jsonFiles)
          \<and> sorted (map created (snd g))
          \<and> groupEvents faults g
              = concat (map (\<lambda>i. objectEvents faults (fst g) i (snd g ! i))
                          [0..<length (snd g)])
          \<and> (\<forall>i < length (snd g). \<forall>path text.
                Saved (file' (snd g ! i)) path text
                  \<in> set (objectEvents faults (fst g) i (snd g ! i))
                \<longrightarrow> path = fst g @ ''-S'' @ toString (int i) @ ''.json''))"
proof -
  let ?sorted = "sort_key created jsonFiles"
  let ?groups = "groupByDate tz ?sorted"
  let ?out = "processGroups faults ?groups \<lparr>dir = d, events = []\<rparr>"
  have run: "downloadAndSaveJSON tz faults (Inr files) d = Inr ?out"
    using assms by (simp add: downloadAndSaveJSON_def)
  have ev: "events ?out = concat (map (groupEvents faults) ?groups)"
    by (simp add: processGroups_events)
  have grp: "snd g = filter (\<lambda>fd. formatDate tz (created fd) = fst g) ?sorted
          \<and> sorted (map created (snd g))
          \<and> groupEvents faults g
              = concat (map (\<lambda>i. objectEvents faults (fst g) i (snd g ! i))
                          [0..<length (snd g)])
          \<and> (\<forall>i < length (snd g). \<forall>path text.
                Saved (file' (snd g ! i)) path text
                  \<in> set (objectEvents faults (fst g) i (snd g ! i))
                \<longrightarrow> path = fst g @ ''-S'' @ toString (int i) @ ''.json'')"
    if "g \<in> set ?groups" for g
  proof -
    obtain k fs where g: "g = (k, fs)" by (cases g)
    with that have "fs = filter (\<lambda>fd. formatDate tz (created fd) = k) ?sorted"
      by (simp add: groupByDate_member)
    with g have f: "snd g = filter (\<lambda>fd. formatDate tz (created fd) = fst g) ?sorted"
      by simp
    have "sorted (map created ?sorted)" by simp
    then have "sorted (map created (filter (\<lambda>fd. formatDate tz (created fd) = fst g) ?sorted))"
      by (rule sorted_filter)
    with f have s: "sorted (map created (snd g))" by simp
    have n: "\<forall>i < length (snd g). \<forall>path text.
                Saved (file' (snd g ! i)) path text
                  \<in> set (objectEvents faults (fst g) i (snd g ! i))
                \<longrightarrow> path = fst g @ ''-S'' @ toString (int i) @ ''.json''"
      by (auto simp: objectEvents_def savedAs_def sequenceFileName_def
               split: option.splits sum.splits if_splits)
    from f s n show ?thesis by (simp add: groupEvents_def)
  qed
  from run ev grp groupByDate_distinct[of tz ?sorted] show ?thesis by blast
qed

theorem written_name_carries_position_in_date_group_witness:
  "selectFiles (getLatestProcessedFile 0 (readdirSync [])) [objE, objB]
     = Inr [\<lparr>file' = objE, created = 1709798400000, name = ''logs/e.json''\<rparr>,
            \<lparr>file' = objB, created = 1709802000000, name = ''logs/b.json''\<rparr>]
   \<and> groupByDate 0 (sort_key created
         [\<lparr>file' = objE, created = 1709798400000, name = ''logs/e.json''\<rparr>,
          \<lparr>file' = objB, created = 1709802000000, name = ''logs/b.json''\<rparr>])
     = [(''07-03-2024'',
         [\<lparr>file' = objE, created = 1709798400000, name = ''logs/e.json''\<rparr>,
          \<lparr>file' = objB, created = 1709802000000, name = ''logs/b.json''\<rparr>])]
   \<and> (\<exists>out. downloadAndSaveJSON 0 [] (Inr [objE, objB]) [] = Inr out
         \<and> events out = [Download objE, Download objB,
                          Saved objB (''07-03-2024'' @ ''-S'' @ toString 1 @ ''.json'') ''{\"b\":2}''])"
proof -
  let ?e = "\<lparr>file' = objE, created = 1709798400000, name = ''logs/e.json''\<rparr>"
  let ?b = "\<lparr>file' = objB, created = 1709802000000, name = ''logs/b.json''\<rparr>"
  have sel: "selectFiles (getLatestProcessedFile 0 (readdirSync [])) [objE, objB] = Inr [?e, ?b]"
    by code_simp
  have grp: "groupByDate 0 (sort_key created [?e, ?b]) = [(''07-03-2024'', [?e, ?b])]"
    by code_simp
  have evs: "concat (map (groupEvents []) [(''07-03-2024'', [?e, ?b])])
      = [Download objE, Download objB,
         Saved objB (''07-03-2024'' @ ''-S'' @ toString 1 @ ''.json'') ''{\"b\":2}'']"
    by code_simp
  from written_name_carries_position_in_date_group[OF sel, of "[]"]
  obtain out where "downloadAndSaveJSON 0 [] (Inr [objE, objB]) [] = Inr out"
    and "events out = concat (map (groupEvents []) (groupByDate 0 (sort_key created [?e, ?b])))"
    by blast
  with grp evs have "\<exists>out. downloadAndSaveJSON 0 [] (Inr [objE, objB]) [] = Inr out
         \<and> events out = [Download objE, Download objB,
                          Saved objB (''07-03-2024'' @ ''-S'' @ toString 1 @ ''.json'') ''{\"b\":2}'']"
    by simp
  with sel grp show ?thesis by blast
qed

text \<open>
  Claim C4 fails on the code at an input it can receive: the same bucket, synchronised
  twice. The first run, on an empty folder, writes \<open>06-03-2024-S0.json\<close> for an object
  created on 2024-03-06 at 10:00. For the second run the watermark is local midnight of
  2024-03-06 with sequence 0; the object was created after that midnight, passes the
  test of line 85 although line 84 says that only files newer than the last processed
  file are included, and is downloaded and written again over the file of the first
  run. On a folder whose \<open>06-03-2024-S0.json\<close> holds another text, the run replaces
  that text.
\<close>

theorem same_day_object_is_written_again:
  "downloadAndSaveJSON 0 [] (Inr [objC]) []
     = Inr \<lparr>dir = [(''06-03-2024-S0.json'', ''{\"c\":3}'')],
              events = [Download objC, Saved objC ''06-03-2024-S0.json'' ''{\"c\":3}'']\<rparr>
   \<and> getLatestProcessedFile 0 (readdirSync [(''06-03-2024-S0.json'', ''{\"c\":3}'')])
     = Some \<lparr>date = 1709683200000, sequence = 0\<rparr>
   \<and> downloadAndSaveJSON 0 [] (Inr [objC]) [(''06-03-2024-S0.json'', ''{\"c\":3}'')]
     = Inr \<lparr>dir = [(''06-03-2024-S0.json'', ''{\"c\":3}'')],
              events = [Download objC, Saved objC ''06-03-2024-S0.json'' ''{\"c\":3}'']\<rparr>
   \<and> downloadAndSaveJSON 0 [] (Inr [objC])
       [(''06-03-2024-S0.json'', ''{\"p\":0}''), (''06-03-2024-S1.json'', ''{\"q\":0}'')]
     = Inr \<lparr>dir = [(''06-03-2024-S0.json'', ''{\"c\":3}''), (''06-03-2024-S1.json'', ''{\"q\":0}'')],
              events = [Download objC, Saved objC ''06-03-2024-S0.json'' ''{\"c\":3}'']\<rparr>"
  by code_simp

text \<open>
  Claim C5. The normalizer gives two values for the array of two objects, two values
  for two lines of JSON, two values for two lines of JSON with a malformed line between
  them, and no value for the empty text. For every text: no value if the trimmed text
  is empty; the elements if the trimmed text parses as an array; the single value if it
  parses as something else; otherwise the values of the lines that are not blank and
  parse, in order, a line that does not parse giving nothing.
\<close>

theorem normalizer_yields_elements_or_parseable_lines:
  "parseJsonContent ''[{\"a\":1},{\"a\":2}]''
     = Inr [JObject [(''a'', JNumber 1 0)], JObject [(''a'', JNumber 2 0)]]
   \<and> parseJsonContent (''{\"a\":1}'' @ [CHR 0x0A] @ ''{\"a\":2}'')
     = Inr [JObject [(''a'', JNumber 1 0)], JObject [(''a'', JNumber 2 0)]]
   \<and> parseJsonContent (''{\"a\":1}'' @ [CHR 0x0A] @ ''not-json'' @ [CHR 0x0A] @ ''{\"a\":2}'')
     = Inr [JObject [(''a'', JNumber 1 0)], JObject [(''a'', JNumber 2 0)]]
   \<and> parseJsonContent [] = Inr []
   \<and> parseJsonContent ([CHR 0x20, CHR 0x0A, CHR 0x09] @ [CHR 0x0D, CHR 0x20]) = Inr []
   \<and> parseJsonContent ''{\"a\":1}'' = Inr [JObject [(''a'', JNumber 1 0)]]
   \<and> (\<forall>content.
         parseJsonContent content
           = Inr (if trim content = [] then []
                  else case JSON_parse (trim content) of
                         Inr (JArray vs) \<Rightarrow> vs
                       | Inr v \<Rightarrow> [v]
                       | Inl e \<Rightarrow>
                           List.map_filter
                             (\<lambda>line. case JSON_parse (trim line) of
                                        Inl e \<Rightarrow> None | Inr v \<Rightarrow> Some v)
                             (filter (\<lambda>line. trim line \<noteq> []) (splitLines (trim content)))))"
proof -
  have 1: "parseJsonContent ''[{\"a\":1},{\"a\":2}]''
     = Inr [JObject [(''a'', JNumber 1 0)], JObject [(''a'', JNumber 2 0)]]"
    by code_simp
  have 2: "parseJsonContent (''{\"a\":1}'' @ [CHR 0x0A] @ ''{\"a\":2}'')
     = Inr [JObject [(''a'', JNumber 1 0)], JObject [(''a'', JNumber 2 0)]]"
    by code_simp
  have 3: "parseJsonContent (''{\"a\":1}'' @ [CHR 0x0A] @ ''not-json'' @ [CHR 0x0A] @ ''{\"a\":2}'')
     = Inr [JObject [(''a'', JNumber 1 0)], JObject [(''a'', JNumber 2 0)]]"
    by code_simp
  have 4: "parseJsonContent [] = Inr []"
    by code_simp
  have 5: "parseJsonContent ([CHR 0x20, CHR 0x0A, CHR 0x09] @ [CHR 0x0D, CHR 0x20]) = Inr []"
    by code_simp
  have 6: "parseJsonContent ''{\"a\":1}'' = Inr [JObject [(''a'', JNumber 1 0)]]"
    by code_simp
  from 1 2 3 4 5 6 parseJsonContent_eq show ?thesis by blast
qed

text \<open>
  Claim C9. The normalizer is total: for every text it returns a list of JSON values
  and throws nothing, and it does so where \<open>JSON.parse\<close> throws.
\<close>

theorem normalizer_never_throws:
  "(\<exists>values. parseJsonContent content = Inr values)
   \<and> (\<forall>e. parseJsonContent content \<noteq> Inl e)
   \<and> JSON_parse ''not-json'' = Inl SyntaxError
   \<and> parseJsonContent ''not-json'' = Inr []"
proof -
  have "JSON_parse ''not-json'' = Inl SyntaxError" by code_simp
  moreover have "parseJsonContent ''not-json'' = Inr []" by code_simp
  moreover have "\<exists>values. parseJsonContent content = Inr values"
    using parseJsonContent_eq[of content] by blast
  ultimately show ?thesis by auto
qed

text \<open>
  Claim C7. When the filter of the aggregation selects no object, the run returns with
  the output folder as it found it and with an empty trace: the combined file is not
  opened, emptied or written.
\<close>

theorem no_match_leaves_combined_file_untouched:
  assumes "selectToday clock 1 files = Inr []"
  shows "processLogs clock (Inr files) d = Inr \<lparr>dir = d, events = []\<rparr>"
  using assms by (simp add: processLogs_def)

theorem no_match_leaves_combined_file_untouched_witness:
  "selectToday (steadyClock 1709805700000) 1 [objB, objN] = Inr []
   \<and> processLogs (steadyClock 1709805700000) (Inr [objB, objN]) [(''today.json'', ''{\"old\":1}'')]
       = Inr \<lparr>dir = [(''today.json'', ''{\"old\":1}'')], events = []\<rparr>"
proof -
  have s: "selectToday (steadyClock 1709805700000) 1 [objB, objN] = Inr []"
    by code_simp
  from no_match_leaves_combined_file_untouched[OF s] s show ?thesis by blast
qed




text \<open>
  Claim C6. Two selected objects, one holding the document \<open>{"x":1}\<close> and one the
  two lines \<open>{"y":2}\<close> and \<open>{"y":3}\<close>, the first created before the second: in
  whichever order the bucket lists them, the combined file holds exactly the three
  lines \<open>{"x":1}\<close>, \<open>{"y":2}\<close>, \<open>{"y":3}\<close> in this order, whatever it held before.
\<close>

theorem two_objects_give_three_lines_in_order:
  assumes "selectToday clock 1 files = Inr jsonFiles"
    and "jsonFiles = [a, b] \<or> jsonFiles = [b, a]"
    and "created a < created b"
    and "download (file' a) = Inr ''{\"x\":1}''"
    and "download (file' b) = Inr (''{\"y\":2}'' @ [CHR 0x0A] @ ''{\"y\":3}'')"
  shows "\<exists>out. processLogs clock (Inr files) d = Inr out
    \<and> map_of (dir out) TODAY_FILE
        = Some (''{\"x\":1}'' @ [CHR 0x0A] @ ''{\"y\":2}'' @ [CHR 0x0A] @ ''{\"y\":3}'' @ [CHR 0x0A])
    \<and> events out
        = [Opened TODAY_FILE,
           Download (file' a), Written TODAY_FILE (''{\"x\":1}'' @ [CHR 0x0A]),
           Download (file' b), Written TODAY_FILE (''{\"y\":2}'' @ [CHR 0x0A]),
           Written TODAY_FILE (''{\"y\":3}'' @ [CHR 0x0A]),
           Ended TODAY_FILE]"
proof -
  let ?st0 = "createWriteStream TODAY_FILE \<lparr>dir = d, events = []\<rparr>"
  let ?st1 = "processFile a ?st0"
  let ?st2 = "processFile b ?st1"
  let ?out = "streamEnd TODAY_FILE ?st2"
  have ne: "length jsonFiles \<noteq> 0" using assms(2) by auto
  have srt: "sort_key created jsonFiles = [a, b]" using sort_two[OF assms(2,3)] .
  have run: "processLogs clock (Inr files) d = Inr ?out"
    using assms(1) ne by (simp add: processLogs_def srt)
  have d0: "map_of (dir ?st0) TODAY_FILE = Some []" and e0: "events ?st0 = [Opened TODAY_FILE]"
    by (simp_all add: createWriteStream_def map_of_putFile)
  have p1: "?st1 = streamWrite TODAY_FILE (''{\"x\":1}'' @ [CHR 0x0A])
                     (?st0\<lparr>events := events ?st0 @ [Download (file' a)]\<rparr>)"
    using assms(4) content_x by (simp add: processFile_def writeEntries_def Let_def)
  have d1: "map_of (dir ?st1) TODAY_FILE = Some (''{\"x\":1}'' @ [CHR 0x0A])"
    unfolding p1 using d0 by (simp add: streamWrite_dir)
  have e1: "events ?st1 = [Opened TODAY_FILE, Download (file' a),
      Written TODAY_FILE (''{\"x\":1}'' @ [CHR 0x0A])]"
    unfolding p1 using e0 by (simp add: streamWrite_events)
  have p2: "?st2 = streamWrite TODAY_FILE (''{\"y\":3}'' @ [CHR 0x0A])
                    (streamWrite TODAY_FILE (''{\"y\":2}'' @ [CHR 0x0A])
                       (?st1\<lparr>events := events ?st1 @ [Download (file' b)]\<rparr>))"
    using assms(5) content_y by (simp add: processFile_def writeEntries_def Let_def)
  have d2: "map_of (dir ?st2) TODAY_FILE
      = Some (''{\"x\":1}'' @ [CHR 0x0A] @ ''{\"y\":2}'' @ [CHR 0x0A] @ ''{\"y\":3}'' @ [CHR 0x0A])"
    unfolding p2 using d1 by (simp add: streamWrite_dir)
  have e2: "events ?st2 = [Opened TODAY_FILE, Download (file' a),
      Written TODAY_FILE (''{\"x\":1}'' @ [CHR 0x0A]), Download (file' b),
      Written TODAY_FILE (''{\"y\":2}'' @ [CHR 0x0A]), Written TODAY_FILE (''{\"y\":3}'' @ [CHR 0x0A])]"
    unfolding p2 using e1 by (simp add: streamWrite_events)
  have "map_of (dir ?out) TODAY_FILE
      = Some (''{\"x\":1}'' @ [CHR 0x0A] @ ''{\"y\":2}'' @ [CHR 0x0A] @ ''{\"y\":3}'' @ [CHR 0x0A])"
    using d2 by (simp add: streamEnd_def)
  moreover have "events ?out = [Opened TODAY_FILE, Download (file' a),
      Written TODAY_FILE (''{\"x\":1}'' @ [CHR 0x0A]), Download (file' b),
      Written TODAY_FILE (''{\"y\":2}'' @ [CHR 0x0A]), Written TODAY_FILE (''{\"y\":3}'' @ [CHR 0x0A]),
      Ended TODAY_FILE]"
    using e2 by (simp add: streamEnd_def)
  ultimately show ?thesis using run by blast
qed

theorem two_objects_give_three_lines_in_order_witness:
  "selectToday (steadyClock 1709805700000) 1 [objY, objN, objX]
     = Inr [\<lparr>file' = objY, created = 1709805600001, name = ''logs/2024/03/07/y.json''\<rparr>,
            \<lparr>file' = objX, created = 1709805600000, name = ''logs/2024/03/07/x.json''\<rparr>]
   \<and> (1709805600000 :: int) < 1709805600001
   \<and> download objX = Inr ''{\"x\":1}''
   \<and> download objY = Inr (''{\"y\":2}'' @ [CHR 0x0A] @ ''{\"y\":3}'')
   \<and> (\<exists>out. processLogs (steadyClock 1709805700000) (Inr [objY, objN, objX])
               [(''today.json'', ''{\"old\":1}'')] = Inr out
         \<and> map_of (dir out) ''today.json''
             = Some (''{\"x\":1}'' @ [CHR 0x0A] @ ''{\"y\":2}'' @ [CHR 0x0A] @ ''{\"y\":3}'' @ [CHR 0x0A]))"
proof -
  let ?x = "\<lparr>file' = objX, created = 1709805600000, name = ''logs/2024/03/07/x.json''\<rparr>"
  let ?y = "\<lparr>file' = objY, created = 1709805600001, name = ''logs/2024/03/07/y.json''\<rparr>"
  have sel: "selectToday (steadyClock 1709805700000) 1 [objY, objN, objX] = Inr [?y, ?x]"
    by code_simp
  have ord: "[?y, ?x] = [?x, ?y] \<or> [?y, ?x] = [?y, ?x]" by simp
  have lt: "created ?x < created ?y" by simp
  have dx: "download (file' ?x) = Inr ''{\"x\":1}''" by (simp add: objX_def)
  have dy: "download (file' ?y) = Inr (''{\"y\":2}'' @ [CHR 0x0A] @ ''{\"y\":3}'')"
    by (simp add: objY_def)
  from two_objects_give_three_lines_in_order[OF sel ord lt dx dy, of "[(''today.json'', ''{\"old\":1}'')]"]
  have "\<exists>out. processLogs (steadyClock 1709805700000) (Inr [objY, objN, objX])
               [(''today.json'', ''{\"old\":1}'')] = Inr out
         \<and> map_of (dir out) ''today.json''
             = Some (''{\"x\":1}'' @ [CHR 0x0A] @ ''{\"y\":2}'' @ [CHR 0x0A] @ ''{\"y\":3}'' @ [CHR 0x0A])"
    by (auto simp: TODAY_FILE_def)
  with sel lt dx dy show ?thesis by simp
qed

end
